theory Spec2Isabelle
  imports Main "HOL-Library.Word"
begin

section \<open>Data model of SemaphoreGate.ino\<close>

text \<open>
  The firmware targets the Arduino Uno, where \<^verbatim>\<open>unsigned long\<close> has 32 bits: every
  timestamp and both counters are \<open>32 word\<close>, so \<open>+\<close> and \<open>-\<close> wrap around as in the
  source. A pin level is \<open>LOW\<close> or \<open>HIGH\<close>. The LCD is an output sink: the calls made
  on it are appended to a list.
\<close>

type_synonym ulong = "32 word"

datatype level = LOW | HIGH

datatype lcd_op = LcdBegin nat nat | LcdHome | LcdSetCursor nat nat | LcdPrint string

text \<open>
  The global variables of the sketch (lines 94 to 121), followed by the output side:
  the last level written to each of the three output pins and the calls made on \<open>lcd\<close>.
\<close>

record gate =
  currentMillis :: ulong
  previousMillis :: ulong
  buttonResetTimestamp :: ulong
  buttonUpTimestamp :: ulong
  buttonDownTimestamp :: ulong
  sensorInTimestamp :: ulong
  sensorOutTimestamp :: ulong
  buzzerTimestamp :: ulong
  displayTimestamp :: ulong
  keepRedTimestamp :: ulong
  buttonResetBlocked :: bool
  buttonResetWasPressed :: bool
  buttonUpWasPressed :: bool
  buttonDownWasPressed :: bool
  sensorInWasActive :: bool
  sensorOutWasActive :: bool
  buzzerIsActive :: bool
  displayUpdated :: bool
  buttonResetNowPressed :: bool
  buttonUpNowPressed :: bool
  buttonDownNowPressed :: bool
  sensorInNowActive :: bool
  sensorOutNowActive :: bool
  visitorCount :: ulong
  maxVisitorCount :: ulong
  pinBuzzer :: level
  pinRedLight :: level
  pinGreenLight :: level
  lcd :: "lcd_op list"

text \<open>
  What one iteration of \<^verbatim>\<open>loop()\<close> reads from the outside: the value returned by
  \<^verbatim>\<open>millis()\<close> and the levels of the five input pins.
\<close>

record inputs =
  millis :: ulong
  pinButtonReset :: level
  pinButtonUp :: level
  pinButtonDown :: level
  pinSensorIn :: level
  pinSensorOut :: level

text \<open>The timing constants (lines 58 to 62); the sketch never assigns them.\<close>

definition SENSOR_DELAY_MS :: ulong where "SENSOR_DELAY_MS = 1000"
definition BUZZER_DURATION_MS :: ulong where "BUZZER_DURATION_MS = 500"
definition BUTTON_REPEAT_DELAY_MS :: ulong where "BUTTON_REPEAT_DELAY_MS = 500"
definition BUTTON_LONG_DELAY_MS :: ulong where "BUTTON_LONG_DELAY_MS = 5000"
definition BUTTON_ENTRANCE_MIN_MS :: ulong where "BUTTON_ENTRANCE_MIN_MS = 2000"

section \<open>The display\<close>

text \<open>\<^verbatim>\<open>String(n)\<close> of an unsigned number: its decimal digits.\<close>

definition digit_char :: "nat \<Rightarrow> char" where
  "digit_char d = ''0123456789'' ! d"

function String_of :: "nat \<Rightarrow> string" where
  "String_of n = (if n < 10 then [digit_char n] else String_of (n div 10) @ [digit_char (n mod 10)])"
  by pat_completeness auto
termination
  by (relation "measure id") auto

declare String_of.simps [simp del]

definition initializeDisplay :: "gate \<Rightarrow> gate" where
  "initializeDisplay s = s\<lparr>lcd := lcd s @ [LcdBegin 16 2]\<rparr>"

definition setDisplayText :: "gate \<Rightarrow> gate" where
  "setDisplayText s =
     s\<lparr>lcd := lcd s @
        [LcdHome,
         LcdPrint (''Current : '' @ String_of (unat (visitorCount s)) @ ''      ''),
         LcdSetCursor 0 1,
         LcdPrint (''Maximum : '' @ String_of (unat (maxVisitorCount s)) @ ''      '')]\<rparr>"

section \<open>The buzzer\<close>

definition checkBuzzer :: "gate \<Rightarrow> gate" where
  "checkBuzzer s =
     (let s1 = (if buzzerIsActive s \<and> currentMillis s - buzzerTimestamp s > BUZZER_DURATION_MS
                then s\<lparr>buzzerIsActive := False, buzzerTimestamp := currentMillis s\<rparr>
                else s)
      in s1\<lparr>pinBuzzer := (if buzzerIsActive s1 then LOW else HIGH)\<rparr>)"

definition buzz :: "gate \<Rightarrow> gate" where
  "buzz s =
     (if buzzerIsActive s then s
      else s\<lparr>buzzerIsActive := True, buzzerTimestamp := currentMillis s, pinBuzzer := HIGH\<rparr>)"

section \<open>The handlers\<close>

definition handleVisitorEntered :: "gate \<Rightarrow> gate" where
  "handleVisitorEntered s =
     (let s1 = s\<lparr>visitorCount := visitorCount s + 1, displayUpdated := False\<rparr>;
          s2 = buzz s1
      in s2\<lparr>keepRedTimestamp := currentMillis s2\<rparr>)"

definition handleVisitorLeft :: "gate \<Rightarrow> gate" where
  "handleVisitorLeft s =
     (let s1 = (if visitorCount s = maxVisitorCount s then buzz s else s);
          s2 = (if visitorCount s1 > 0 then s1\<lparr>visitorCount := visitorCount s1 - 1\<rparr> else s1)
      in s2\<lparr>displayUpdated := False\<rparr>)"

definition handleReset :: "gate \<Rightarrow> gate" where
  "handleReset s = buzz (s\<lparr>visitorCount := 0, maxVisitorCount := 20, displayUpdated := False\<rparr>)"

definition handleButtonUp :: "gate \<Rightarrow> gate" where
  "handleButtonUp s =
     (let s1 = s\<lparr>buttonUpTimestamp := currentMillis s\<rparr>;
          s2 = (if buttonResetNowPressed s1 then s1\<lparr>visitorCount := visitorCount s1 + 1\<rparr>
                else s1\<lparr>maxVisitorCount := maxVisitorCount s1 + 1\<rparr>)
      in s2\<lparr>displayUpdated := False\<rparr>)"

definition handleButtonDown :: "gate \<Rightarrow> gate" where
  "handleButtonDown s =
     (let s1 = s\<lparr>buttonDownTimestamp := currentMillis s\<rparr>;
          s2 = (if buttonResetNowPressed s1
                then (if visitorCount s1 > 0 then s1\<lparr>visitorCount := visitorCount s1 - 1\<rparr> else s1)
                else (if maxVisitorCount s1 > 0 then s1\<lparr>maxVisitorCount := maxVisitorCount s1 - 1\<rparr>
                      else s1))
      in s2\<lparr>displayUpdated := False\<rparr>)"

section \<open>The tasks of the loop\<close>

text \<open>\<open>updateTimers\<close> takes the reading of \<^verbatim>\<open>millis()\<close> as its first argument.\<close>

definition updateTimers :: "ulong \<Rightarrow> gate \<Rightarrow> gate" where
  "updateTimers m s =
     (let s1 = s\<lparr>currentMillis := m\<rparr>;
          s2 = (if currentMillis s1 < previousMillis s1
                then s1\<lparr>buttonResetTimestamp := 0, buttonUpTimestamp := 0,
                        buttonDownTimestamp := 0, sensorInTimestamp := 0,
                        sensorOutTimestamp := 0, buzzerTimestamp := 0,
                        displayTimestamp := 0, keepRedTimestamp := 0\<rparr>
                else s1)
      in s2\<lparr>previousMillis := currentMillis s2\<rparr>)"

definition checkSensorIn :: "gate \<Rightarrow> gate" where
  "checkSensorIn s =
     (if sensorInWasActive s \<and> \<not> sensorInNowActive s then
        (if currentMillis s - sensorInTimestamp s > SENSOR_DELAY_MS
         then (let s1 = handleVisitorEntered s in s1\<lparr>sensorInTimestamp := currentMillis s1\<rparr>)
         else s)
      else s)"

definition checkSensorOut :: "gate \<Rightarrow> gate" where
  "checkSensorOut s =
     (if sensorOutWasActive s \<and> \<not> sensorOutNowActive s then
        (if currentMillis s - sensorOutTimestamp s > SENSOR_DELAY_MS
         then (let s1 = handleVisitorLeft s in s1\<lparr>sensorOutTimestamp := currentMillis s1\<rparr>)
         else s)
      else s)"

text \<open>
  The two \<^verbatim>\<open>return\<close> statements of \<open>checkButtons\<close> end the first two branches of the
  chain below: once a branch is taken, the later tests are not made.
\<close>

definition checkButtons :: "gate \<Rightarrow> gate" where
  "checkButtons s =
     (let s1 = (if \<not> buttonResetNowPressed s then s\<lparr>buttonResetBlocked := False\<rparr>
                else if \<not> buttonResetWasPressed s
                then s\<lparr>buttonResetTimestamp := currentMillis s\<rparr>
                else s)
      in if \<not> buttonResetBlocked s1 \<and> buttonResetWasPressed s1 \<and> buttonResetNowPressed s1 \<and>
            currentMillis s1 - buttonResetTimestamp s1 > BUTTON_LONG_DELAY_MS
         then handleReset (s1\<lparr>buttonResetBlocked := True\<rparr>)
         else if buttonUpNowPressed s1 \<and>
                 currentMillis s1 - buttonUpTimestamp s1 > BUTTON_REPEAT_DELAY_MS
         then handleButtonUp (s1\<lparr>buttonResetBlocked := buttonResetNowPressed s1\<rparr>)
         else if buttonDownNowPressed s1 \<and>
                 currentMillis s1 - buttonDownTimestamp s1 > BUTTON_REPEAT_DELAY_MS
         then handleButtonDown (s1\<lparr>buttonResetBlocked := buttonResetNowPressed s1\<rparr>)
         else s1)"

text \<open>
  \<open>updateLights\<close>: the local variable \<open>allow\<close> and the state after the hold-red test are
  computed together, then the two \<^verbatim>\<open>digitalWrite\<close> calls follow.
\<close>

definition updateLights :: "gate \<Rightarrow> gate" where
  "updateLights s =
     (let allow = visitorCount s < maxVisitorCount s;
          r = (if keepRedTimestamp s > 0 then
                 (if currentMillis s - keepRedTimestamp s > BUTTON_ENTRANCE_MIN_MS
                  then (allow, (let s1 = s\<lparr>keepRedTimestamp := 0\<rparr>
                                in if allow then buzz s1 else s1))
                  else (False, s))
               else (allow, s));
          allow2 = fst r;
          s2 = snd r
      in s2\<lparr>pinRedLight := (if allow2 then LOW else HIGH),
             pinGreenLight := (if allow2 then HIGH else LOW)\<rparr>)"

definition updateDisplay :: "gate \<Rightarrow> gate" where
  "updateDisplay s =
     (let s1 = (if currentMillis s - displayTimestamp s > 60000
                then initializeDisplay (s\<lparr>displayUpdated := False\<rparr>)
                else s);
          s2 = updateLights s1
      in if displayUpdated s2 then s2
         else setDisplayText (s2\<lparr>displayTimestamp := currentMillis s2, displayUpdated := True\<rparr>))"

section \<open>The loop\<close>

text \<open>An input is asserted when its pin reads \<open>LOW\<close> (lines 126 to 130).\<close>

definition readInputs :: "inputs \<Rightarrow> gate \<Rightarrow> gate" where
  "readInputs i s =
     s\<lparr>buttonResetNowPressed := (pinButtonReset i = LOW),
       buttonUpNowPressed := (pinButtonUp i = LOW),
       buttonDownNowPressed := (pinButtonDown i = LOW),
       sensorInNowActive := (pinSensorIn i = LOW),
       sensorOutNowActive := (pinSensorOut i = LOW)\<rparr>"

definition updateState :: "gate \<Rightarrow> gate" where
  "updateState s =
     s\<lparr>buttonResetWasPressed := buttonResetNowPressed s,
       buttonUpWasPressed := buttonUpNowPressed s,
       buttonDownWasPressed := buttonDownNowPressed s,
       sensorInWasActive := sensorInNowActive s,
       sensorOutWasActive := sensorOutNowActive s\<rparr>"

definition loop :: "inputs \<Rightarrow> gate \<Rightarrow> gate" where
  "loop i s =
     updateState (updateDisplay (checkButtons (checkSensorOut (checkSensorIn
       (checkBuzzer (updateTimers (millis i) (readInputs i s)))))))"

text \<open>The loop runs once for every element of a list of inputs.\<close>

fun run :: "inputs list \<Rightarrow> gate \<Rightarrow> gate" where
  "run [] s = s"
| "run (i # rest) s = run rest (loop i s)"

section \<open>Start-up\<close>

text \<open>
  The initialisers of the globals call \<^verbatim>\<open>millis()\<close> three times, for \<open>currentMillis\<close>,
  \<open>previousMillis\<close> and \<open>keepRedTimestamp\<close>: the three readings are parameters. The output
  pins have not been written yet and read \<open>LOW\<close>. Of the start-up function of the sketch,
  the pin configuration is outside the model; \<open>handleReset\<close> and \<open>initializeDisplay\<close> are
  its last two calls.
\<close>

definition globals :: "ulong \<Rightarrow> ulong \<Rightarrow> ulong \<Rightarrow> gate" where
  "globals m1 m2 m3 =
     \<lparr>currentMillis = m1, previousMillis = m2,
      buttonResetTimestamp = 0, buttonUpTimestamp = 0, buttonDownTimestamp = 0,
      sensorInTimestamp = 0, sensorOutTimestamp = 0, buzzerTimestamp = 0,
      displayTimestamp = 0, keepRedTimestamp = m3,
      buttonResetBlocked = False, buttonResetWasPressed = False,
      buttonUpWasPressed = False, buttonDownWasPressed = False,
      sensorInWasActive = False, sensorOutWasActive = False,
      buzzerIsActive = False, displayUpdated = False,
      buttonResetNowPressed = False, buttonUpNowPressed = False,
      buttonDownNowPressed = False, sensorInNowActive = False,
      sensorOutNowActive = False,
      visitorCount = 0, maxVisitorCount = 5,
      pinBuzzer = LOW, pinRedLight = LOW, pinGreenLight = LOW, lcd = []\<rparr>"

definition sketch_setup :: "gate \<Rightarrow> gate" where
  "sketch_setup s = initializeDisplay (handleReset s)"

text \<open>The state in which the first iteration starts when the clock still reads 0.\<close>

definition boot :: gate where
  "boot = sketch_setup (globals 0 0 0)"

text \<open>An input with the given clock reading and pin levels, in the order
  reset, up, down, sensor in, sensor out.\<close>

definition tick :: "ulong \<Rightarrow> level \<Rightarrow> level \<Rightarrow> level \<Rightarrow> level \<Rightarrow> level \<Rightarrow> inputs" where
  "tick m r u d si so =
     \<lparr>millis = m, pinButtonReset = r, pinButtonUp = u, pinButtonDown = d,
      pinSensorIn = si, pinSensorOut = so\<rparr>"

section \<open>Observations used by the properties\<close>

text \<open>The part of the state that belongs to the alert: its flag, its start time and
  the level last written to the buzzer pin.\<close>

definition alert_state :: "gate \<Rightarrow> bool \<times> ulong \<times> level" where
  "alert_state s = (buzzerIsActive s, buzzerTimestamp s, pinBuzzer s)"

text \<open>
  Which branch \<open>checkButtons\<close> takes, read off the state in which it is called. The
  first two statements of \<open>checkButtons\<close> change \<open>buttonResetBlocked\<close> only when reset is
  not pressed and \<open>buttonResetTimestamp\<close> only when reset was not pressed before, so the
  long-press test gives the same answer on the state before them.
\<close>

definition longPressFires :: "gate \<Rightarrow> bool" where
  "longPressFires s =
     (\<not> buttonResetBlocked s \<and> buttonResetWasPressed s \<and> buttonResetNowPressed s \<and>
      currentMillis s - buttonResetTimestamp s > BUTTON_LONG_DELAY_MS)"

definition upRepeats :: "gate \<Rightarrow> bool" where
  "upRepeats s =
     (buttonUpNowPressed s \<and> currentMillis s - buttonUpTimestamp s > BUTTON_REPEAT_DELAY_MS)"

definition downRepeats :: "gate \<Rightarrow> bool" where
  "downRepeats s =
     (buttonDownNowPressed s \<and>
      currentMillis s - buttonDownTimestamp s > BUTTON_REPEAT_DELAY_MS)"

definition upFires :: "gate \<Rightarrow> bool" where
  "upFires s = (\<not> longPressFires s \<and> upRepeats s)"

definition downFires :: "gate \<Rightarrow> bool" where
  "downFires s = (\<not> longPressFires s \<and> \<not> upRepeats s \<and> downRepeats s)"

text \<open>The first statement of \<open>checkButtons\<close> (lines 231 to 238) on its own.\<close>

definition resetEdge :: "gate \<Rightarrow> gate" where
  "resetEdge s =
     (if \<not> buttonResetNowPressed s then s\<lparr>buttonResetBlocked := False\<rparr>
      else if \<not> buttonResetWasPressed s then s\<lparr>buttonResetTimestamp := currentMillis s\<rparr>
      else s)"

section \<open>Concrete states and inputs\<close>

text \<open>A state with 3 visitors for a maximum of 3, and one with no visitor for a maximum
  of 0, both with the alert idle.\<close>

definition full_room :: gate where
  "full_room = boot\<lparr>visitorCount := 3, maxVisitorCount := 3, buzzerIsActive := False\<rparr>"

definition empty_room :: gate where
  "empty_room = boot\<lparr>maxVisitorCount := 0, buzzerIsActive := False\<rparr>"

text \<open>Six passages through the entry sensor, the trailing edges 1500 ms apart.\<close>

definition six_entries :: "inputs list" where
  "six_entries =
     [tick 1400 HIGH HIGH HIGH LOW HIGH, tick 1500 HIGH HIGH HIGH HIGH HIGH,
      tick 2900 HIGH HIGH HIGH LOW HIGH, tick 3000 HIGH HIGH HIGH HIGH HIGH,
      tick 4400 HIGH HIGH HIGH LOW HIGH, tick 4500 HIGH HIGH HIGH HIGH HIGH,
      tick 5900 HIGH HIGH HIGH LOW HIGH, tick 6000 HIGH HIGH HIGH HIGH HIGH,
      tick 7400 HIGH HIGH HIGH LOW HIGH, tick 7500 HIGH HIGH HIGH HIGH HIGH,
      tick 8900 HIGH HIGH HIGH LOW HIGH, tick 9000 HIGH HIGH HIGH HIGH HIGH]"

text \<open>The state in which \<open>checkButtons\<close> runs in the first iteration after start-up, at
  clock reading 1000: with reset and up pressed, with up alone, with reset and down
  pressed, and with down alone.\<close>

definition at_buttons :: "level \<Rightarrow> level \<Rightarrow> level \<Rightarrow> gate" where
  "at_buttons r u d =
     checkSensorOut (checkSensorIn (checkBuzzer
       (updateTimers 1000 (readInputs (tick 1000 r u d HIGH HIGH) boot))))"

section \<open>Runs of the loop\<close>

text \<open>
  One iteration in two parts: up to and including \<open>checkBuzzer\<close>, and the rest.
\<close>

definition alert_phase :: "inputs \<Rightarrow> gate \<Rightarrow> gate" where
  "alert_phase i s = checkBuzzer (updateTimers (millis i) (readInputs i s))"

definition after_alert :: "gate \<Rightarrow> gate" where
  "after_alert s = updateState (updateDisplay (checkButtons (checkSensorOut (checkSensorIn s))))"

text \<open>
  \<open>steady p js\<close>: the clock readings of \<open>js\<close> never decrease, starting from the reading
  \<open>p\<close>, so that \<open>updateTimers\<close> never sees the clock wrap around. \<open>until lim js\<close>: no
  reading of \<open>js\<close> is greater than \<open>lim\<close>.
\<close>

fun steady :: "ulong \<Rightarrow> inputs list \<Rightarrow> bool" where
  "steady p [] = True"
| "steady p (i # rest) = (p \<le> millis i \<and> steady (millis i) rest)"

fun until :: "nat \<Rightarrow> inputs list \<Rightarrow> bool" where
  "until lim [] = True"
| "until lim (i # rest) = (unat (millis i) \<le> lim \<and> until lim rest)"

text \<open>A passage through the entry sensor whose trailing edge is at clock reading 2001,
  and one whose trailing edge is 96 ms before the clock wraps around.\<close>

definition entry_at_2001 :: "inputs list" where
  "entry_at_2001 = [tick 2000 HIGH HIGH HIGH LOW HIGH, tick 2001 HIGH HIGH HIGH HIGH HIGH]"

definition entry_before_wrap :: "inputs list" where
  "entry_before_wrap =
     [tick 4294967000 HIGH HIGH HIGH LOW HIGH, tick 4294967200 HIGH HIGH HIGH HIGH HIGH]"

text \<open>An iteration in which no input is asserted, and one in which only the entry
  sensor is.\<close>

definition quiet :: "ulong \<Rightarrow> inputs" where
  "quiet m = tick m HIGH HIGH HIGH HIGH HIGH"

definition sense_in :: "ulong \<Rightarrow> inputs" where
  "sense_in m = tick m HIGH HIGH HIGH LOW HIGH"

section \<open>The entry sensor and the hold-red window\<close>

text \<open>
  \<open>sensorInAccepts s\<close>: called in \<open>s\<close>, \<open>checkSensorIn\<close> calls \<open>handleVisitorEntered\<close>
  (both tests of lines 198 and 200 succeed).
\<close>

definition sensorInAccepts :: "gate \<Rightarrow> bool" where
  "sensorInAccepts s =
     (sensorInWasActive s \<and> \<not> sensorInNowActive s \<and>
      currentMillis s - sensorInTimestamp s > SENSOR_DELAY_MS)"

text \<open>The two indications of the light.\<close>

definition denies :: "gate \<Rightarrow> bool" where
  "denies s = (pinRedLight s = HIGH \<and> pinGreenLight s = LOW)"

definition allows :: "gate \<Rightarrow> bool" where
  "allows s = (pinRedLight s = LOW \<and> pinGreenLight s = HIGH)"

text \<open>
  \<open>holding e s\<close>: a hold-red window that began at reading \<open>e\<close> or later is open, and the
  current reading is at most 2000 ms after \<open>e\<close>.
\<close>

definition holding :: "ulong \<Rightarrow> gate \<Rightarrow> bool" where
  "holding e s =
     (keepRedTimestamp s \<noteq> 0 \<and> e \<le> keepRedTimestamp s \<and>
      keepRedTimestamp s \<le> currentMillis s \<and> unat (currentMillis s) \<le> unat e + 2000)"

text \<open>The state in which \<open>updateDisplay\<close>, and with it \<open>updateLights\<close>, is called in an
  iteration.\<close>

definition lights_state :: "inputs \<Rightarrow> gate \<Rightarrow> gate" where
  "lights_state i s = checkButtons (checkSensorOut (checkSensorIn (alert_phase i s)))"

text \<open>
  The number of calls of \<open>handleVisitorEntered\<close> during a run: \<open>checkSensorIn\<close> is its only
  caller in the loop, once per iteration at most, in the state that \<open>alert_phase\<close> leaves.
\<close>

fun count_enters :: "inputs list \<Rightarrow> gate \<Rightarrow> nat" where
  "count_enters [] s = 0"
| "count_enters (i # rest) s =
     (if sensorInAccepts (alert_phase i s) then 1 else 0) + count_enters rest (loop i s)"

text \<open>
  The debouncer in the words of the specification, over the clock readings as natural
  numbers: \<open>prev\<close> is the previous reading, \<open>accepted\<close> the reading of the last accepted
  event (0 when there is none, and again 0 once the clock has been seen to go back),
  \<open>was\<close> the previous sample of the sensor. An event is accepted on a trailing edge whose
  reading is more than 1000 ms after \<open>accepted\<close>; any other edge changes nothing.
\<close>

fun spec_enters :: "nat \<Rightarrow> nat \<Rightarrow> bool \<Rightarrow> inputs list \<Rightarrow> nat" where
  "spec_enters prev accepted was [] = 0"
| "spec_enters prev accepted was (i # rest) =
     (let now = unat (millis i);
          accepted1 = (if now < prev then 0 else accepted);
          active = (pinSensorIn i = LOW)
      in if was \<and> \<not> active \<and> accepted1 + 1000 < now
         then 1 + spec_enters now now active rest
         else spec_enters now accepted1 active rest)"

section \<open>The reset button\<close>

text \<open>The state in which \<open>checkButtons\<close> is called in an iteration.\<close>

definition buttons_state :: "inputs \<Rightarrow> gate \<Rightarrow> gate" where
  "buttons_state i s = checkSensorOut (checkSensorIn (alert_phase i s))"

text \<open>The number of iterations of a run in which the long press fires, that is, in
  which \<open>checkButtons\<close> calls \<open>handleReset\<close>.\<close>

fun count_resets :: "inputs list \<Rightarrow> gate \<Rightarrow> nat" where
  "count_resets [] s = 0"
| "count_resets (i # rest) s =
     (if longPressFires (buttons_state i s) then 1 else 0) + count_resets rest (loop i s)"

text \<open>
  \<open>held js\<close>: in every iteration of \<open>js\<close> reset is pressed and neither up nor down is.
  \<open>later lim js\<close>: some reading of \<open>js\<close> is greater than \<open>lim\<close>.
\<close>

fun held :: "inputs list \<Rightarrow> bool" where
  "held [] = True"
| "held (i # rest) =
     (pinButtonReset i = LOW \<and> pinButtonUp i = HIGH \<and> pinButtonDown i = HIGH \<and> held rest)"

fun later :: "nat \<Rightarrow> inputs list \<Rightarrow> bool" where
  "later lim [] = False"
| "later lim (i # rest) = (lim < unat (millis i) \<or> later lim rest)"

text \<open>
  \<open>pressing t b s\<close>: reset was pressed in the last iteration, the press was first seen
  at reading \<open>t\<close>, and the lockout flag is \<open>b\<close>.
\<close>

definition pressing :: "ulong \<Rightarrow> bool \<Rightarrow> gate \<Rightarrow> bool" where
  "pressing t b s =
     (buttonResetWasPressed s \<and> buttonResetTimestamp s = t \<and> t \<le> previousMillis s \<and>
      buttonResetBlocked s = b)"

text \<open>An iteration in which only reset is pressed, and the state after one press of up
  at reading 600 after start-up, in which the maximum is 21.\<close>

definition press_reset :: "ulong \<Rightarrow> inputs" where
  "press_reset m = tick m LOW HIGH HIGH HIGH HIGH"

definition after_up :: gate where
  "after_up = run [tick 600 HIGH LOW HIGH HIGH HIGH] boot"

text \<open>
  The state in which \<open>checkButtons\<close> runs at reading \<open>m\<close> when up has been pressed since
  reading 1000, where it fired, with reset at level \<open>r\<close> all along.
\<close>

definition up_again :: "level \<Rightarrow> ulong \<Rightarrow> gate" where
  "up_again r m =
     buttons_state (tick m r LOW HIGH HIGH HIGH) (run [tick 1000 r LOW HIGH HIGH HIGH] boot)"

section \<open>The display sink\<close>

text \<open>The number of \<^verbatim>\<open>lcd.begin\<close> calls and of renderings (each starts with
  \<^verbatim>\<open>lcd.home\<close>) made so far.\<close>

fun is_begin :: "lcd_op \<Rightarrow> bool" where
  "is_begin (LcdBegin c r) = True"
| "is_begin LcdHome = False"
| "is_begin (LcdSetCursor c r) = False"
| "is_begin (LcdPrint t) = False"

definition reinits :: "gate \<Rightarrow> nat" where
  "reinits s = length (filter is_begin (lcd s))"

definition renders :: "gate \<Rightarrow> nat" where
  "renders s = length (filter (\<lambda>x. x = LcdHome) (lcd s))"

text \<open>A run of 150 seconds in which a visitor enters every 30 seconds.\<close>

definition busy :: "inputs list" where
  "busy =
     [quiet 10,
      sense_in 29000, quiet 30000, sense_in 59000, quiet 60000, sense_in 89000, quiet 90000,
      sense_in 119000, quiet 120000, sense_in 149000, quiet 150000, quiet 150010]"

section \<open>States that the loop can reach\<close>

text \<open>
  What the hypotheses of the run properties ask of their starting state holds after
  start-up and after every iteration: the entry and buzzer timestamps are not ahead of
  the clock, and the lockout is set only while reset is pressed.
\<close>

definition consistent :: "gate \<Rightarrow> bool" where
  "consistent s =
     (sensorInTimestamp s \<le> previousMillis s \<and> buzzerTimestamp s \<le> previousMillis s \<and>
      (buttonResetWasPressed s \<or> \<not> buttonResetBlocked s))"


section \<open>Evaluation\<close>

lemmas const_defs = SENSOR_DELAY_MS_def BUZZER_DURATION_MS_def BUTTON_REPEAT_DELAY_MS_def
  BUTTON_LONG_DELAY_MS_def BUTTON_ENTRANCE_MIN_MS_def

lemmas task_defs = loop_def readInputs_def updateTimers_def checkBuzzer_def checkSensorIn_def
  checkSensorOut_def checkButtons_def updateDisplay_def updateLights_def updateState_def buzz_def
  handleVisitorEntered_def handleVisitorLeft_def handleReset_def handleButtonUp_def
  handleButtonDown_def initializeDisplay_def setDisplayText_def

lemmas start_defs = boot_def sketch_setup_def globals_def tick_def

section \<open>Leaving visitors\<close>

text \<open>
  C3. For every state, \<open>handleVisitorLeft\<close> decrements \<open>visitorCount\<close> exactly when it is
  greater than 0 (otherwise it stays 0), never changes \<open>maxVisitorCount\<close>, and calls
  \<open>buzz\<close> exactly when \<open>visitorCount\<close> equals \<open>maxVisitorCount\<close> on entry: the alert part of
  the state is that of \<open>buzz\<close> in that case and is untouched otherwise. From (3, 3) the count
  becomes 2 and the alert is sounding afterwards.
\<close>

theorem C3_leave:
  "visitorCount (handleVisitorLeft s) =
     (if 0 < visitorCount s then visitorCount s - 1 else visitorCount s)
   \<and> unat (visitorCount (handleVisitorLeft s)) = unat (visitorCount s) - 1
   \<and> maxVisitorCount (handleVisitorLeft s) = maxVisitorCount s
   \<and> alert_state (handleVisitorLeft s) =
       (if visitorCount s = maxVisitorCount s then alert_state (buzz s) else alert_state s)
   \<and> (visitorCount s = maxVisitorCount s \<longrightarrow> buzzerIsActive (handleVisitorLeft s))
   \<and> (visitorCount s = 3 \<and> maxVisitorCount s = 3 \<longrightarrow>
        visitorCount (handleVisitorLeft s) = 2 \<and> buzzerIsActive (handleVisitorLeft s))"
  apply (simp add: handleVisitorLeft_def buzz_def alert_state_def Let_def)
  apply (auto simp: word_greater_zero_iff unat_minus_one)
  done

theorem C3_leave_witness:
  "visitorCount full_room = 3 \<and> maxVisitorCount full_room = 3 \<and> \<not> buzzerIsActive full_room
   \<and> visitorCount (handleVisitorLeft full_room) = 2
   \<and> buzzerIsActive (handleVisitorLeft full_room)
   \<and> buzzerTimestamp (handleVisitorLeft full_room) = currentMillis full_room"
  using C3_leave [of full_room]
  by (simp add: full_room_def start_defs handleReset_def initializeDisplay_def buzz_def
      alert_state_def)

text \<open>
  C10. In a state with \<open>visitorCount = maxVisitorCount = 0\<close>, \<open>handleVisitorLeft\<close> calls
  \<open>buzz\<close> (0 equals 0) although nothing is decremented: the count stays 0, the alert is
  sounding afterwards, and when it was idle before it has just been started, with the
  start time and the pin write of \<open>buzz\<close>.
\<close>

theorem C10_leave_empty:
  "visitorCount s = 0 \<and> maxVisitorCount s = 0 \<longrightarrow>
     visitorCount (handleVisitorLeft s) = 0
     \<and> buzzerIsActive (handleVisitorLeft s)
     \<and> alert_state (handleVisitorLeft s) = alert_state (buzz s)
     \<and> (\<not> buzzerIsActive s \<longrightarrow>
          buzzerTimestamp (handleVisitorLeft s) = currentMillis s
          \<and> pinBuzzer (handleVisitorLeft s) = HIGH)"
  by (auto simp: handleVisitorLeft_def buzz_def alert_state_def Let_def)

theorem C10_leave_empty_witness:
  "visitorCount empty_room = 0 \<and> maxVisitorCount empty_room = 0 \<and> \<not> buzzerIsActive empty_room
   \<and> visitorCount (handleVisitorLeft empty_room) = 0
   \<and> buzzerIsActive (handleVisitorLeft empty_room)
   \<and> pinBuzzer (handleVisitorLeft empty_room) = HIGH"
  using C10_leave_empty [of empty_room]
  by (simp add: empty_room_def start_defs handleReset_def initializeDisplay_def buzz_def)

section \<open>Entering visitors\<close>

lemma six_entries_run:
  "visitorCount (run six_entries (boot\<lparr>maxVisitorCount := 5\<rparr>)) = 6"
  by (simp add: six_entries_def start_defs task_defs const_defs Let_def)

lemma six_entries_run_max:
  "maxVisitorCount (run six_entries (boot\<lparr>maxVisitorCount := 5\<rparr>)) = 5"
  by (simp add: six_entries_def start_defs task_defs const_defs Let_def)

lemma entered_funpow:
  "visitorCount ((handleVisitorEntered ^^ n) s) = visitorCount s + of_nat n
   \<and> maxVisitorCount ((handleVisitorEntered ^^ n) s) = maxVisitorCount s"
  by (induction n) (simp_all add: handleVisitorEntered_def buzz_def Let_def)

text \<open>
  C4. For every state, \<open>handleVisitorEntered\<close> adds 1 to \<open>visitorCount\<close> (the addition of
  \<^verbatim>\<open>unsigned long\<close>, modulo \<open>2 ^ 32\<close>) without looking at \<open>maxVisitorCount\<close>, which it leaves
  as it is. Six calls from (0, 5) give 6, and so do six passages through the entry
  sensor 1500 ms apart, run through the loop from the start-up state with maximum 5.
\<close>

theorem C4_enter:
  "visitorCount (handleVisitorEntered s) = visitorCount s + 1
   \<and> unat (visitorCount (handleVisitorEntered s)) = (unat (visitorCount s) + 1) mod 2 ^ 32
   \<and> maxVisitorCount (handleVisitorEntered s) = maxVisitorCount s
   \<and> visitorCount ((handleVisitorEntered ^^ 6) (s\<lparr>visitorCount := 0, maxVisitorCount := 5\<rparr>)) = 6
   \<and> visitorCount (run six_entries (boot\<lparr>maxVisitorCount := 5\<rparr>)) = 6
   \<and> maxVisitorCount (run six_entries (boot\<lparr>maxVisitorCount := 5\<rparr>)) = 5"
proof -
  have a: "visitorCount (handleVisitorEntered s) = visitorCount s + 1"
    by (simp add: handleVisitorEntered_def buzz_def Let_def)
  have b: "unat (visitorCount s + 1) = (unat (visitorCount s) + 1) mod 2 ^ 32"
    by (simp add: unat_word_ariths)
  have c: "maxVisitorCount (handleVisitorEntered s) = maxVisitorCount s"
    by (simp add: handleVisitorEntered_def buzz_def Let_def)
  have d: "visitorCount ((handleVisitorEntered ^^ 6)
             (s\<lparr>visitorCount := 0, maxVisitorCount := 5\<rparr>)) = 6"
    using entered_funpow [of 6 "s\<lparr>visitorCount := 0, maxVisitorCount := 5\<rparr>"] by simp
  show ?thesis using a b c d six_entries_run six_entries_run_max by simp
qed

section \<open>The buzzer pin\<close>

text \<open>
  C5. The level of the buzzer pin is not a function of the alert state. \<open>buzz\<close> writes
  \<open>HIGH\<close> when it starts the alert, \<open>checkBuzzer\<close> writes \<open>LOW\<close> while the alert is active
  and \<open>HIGH\<close> when it is idle. After start-up the alert is active and the pin is \<open>HIGH\<close>;
  after the first iteration (clock 100) the alert is still active and the pin is \<open>LOW\<close>;
  after a second iteration (clock 700) the alert is idle and the pin is \<open>HIGH\<close> again.
\<close>

theorem C5_buzzer_pin:
  "buzzerIsActive boot \<and> pinBuzzer boot = HIGH
   \<and> buzzerIsActive (run [tick 100 HIGH HIGH HIGH HIGH HIGH] boot)
   \<and> pinBuzzer (run [tick 100 HIGH HIGH HIGH HIGH HIGH] boot) = LOW
   \<and> \<not> buzzerIsActive
       (run [tick 100 HIGH HIGH HIGH HIGH HIGH, tick 700 HIGH HIGH HIGH HIGH HIGH] boot)
   \<and> pinBuzzer
       (run [tick 100 HIGH HIGH HIGH HIGH HIGH, tick 700 HIGH HIGH HIGH HIGH HIGH] boot) = HIGH"
  by (simp add: start_defs task_defs const_defs Let_def)

section \<open>Frame lemmas\<close>

lemma loop_phases: "loop i s = after_alert (alert_phase i s)"
  by (simp add: loop_def after_alert_def alert_phase_def)

lemma buzz_active: "buzzerIsActive s \<Longrightarrow> buzz s = s"
  by (simp add: buzz_def)

lemma buzz_sounds: "buzzerIsActive (buzz s)"
  by (simp add: buzz_def)

lemma buzz_clock [simp]:
  "currentMillis (buzz s) = currentMillis s" "previousMillis (buzz s) = previousMillis s"
  by (simp_all add: buzz_def)

lemma checkSensorIn_alert:
  "buzzerIsActive s \<Longrightarrow>
     buzzerIsActive (checkSensorIn s) \<and> buzzerTimestamp (checkSensorIn s) = buzzerTimestamp s"
  by (simp add: checkSensorIn_def handleVisitorEntered_def buzz_def Let_def)

lemma checkSensorOut_alert:
  "buzzerIsActive s \<Longrightarrow>
     buzzerIsActive (checkSensorOut s) \<and> buzzerTimestamp (checkSensorOut s) = buzzerTimestamp s"
  by (simp add: checkSensorOut_def handleVisitorLeft_def buzz_def Let_def)

lemma checkButtons_alert:
  "buzzerIsActive s \<Longrightarrow>
     buzzerIsActive (checkButtons s) \<and> buzzerTimestamp (checkButtons s) = buzzerTimestamp s"
  by (simp add: checkButtons_def handleReset_def handleButtonUp_def handleButtonDown_def
      buzz_def Let_def)

lemma updateDisplay_alert:
  "buzzerIsActive s \<Longrightarrow>
     buzzerIsActive (updateDisplay s) \<and> buzzerTimestamp (updateDisplay s) = buzzerTimestamp s"
  by (simp add: updateDisplay_def updateLights_def initializeDisplay_def setDisplayText_def
      buzz_def Let_def)

lemma after_alert_alert:
  assumes "buzzerIsActive s"
  shows "buzzerIsActive (after_alert s) \<and> buzzerTimestamp (after_alert s) = buzzerTimestamp s"
proof -
  note a = checkSensorIn_alert [OF assms]
  note b = checkSensorOut_alert [OF conjunct1 [OF a]]
  note c = checkButtons_alert [OF conjunct1 [OF b]]
  note d = updateDisplay_alert [OF conjunct1 [OF c]]
  show ?thesis using a b c d by (simp add: after_alert_def updateState_def)
qed

lemma checkSensorIn_clock [simp]:
  "previousMillis (checkSensorIn s) = previousMillis s"
  "currentMillis (checkSensorIn s) = currentMillis s"
  by (simp_all add: checkSensorIn_def handleVisitorEntered_def Let_def)

lemma checkSensorOut_clock [simp]:
  "previousMillis (checkSensorOut s) = previousMillis s"
  "currentMillis (checkSensorOut s) = currentMillis s"
  by (simp_all add: checkSensorOut_def handleVisitorLeft_def Let_def)

lemma checkButtons_clock [simp]:
  "previousMillis (checkButtons s) = previousMillis s"
  "currentMillis (checkButtons s) = currentMillis s"
  by (simp_all add: checkButtons_def handleReset_def handleButtonUp_def handleButtonDown_def Let_def)

lemma updateDisplay_clock [simp]:
  "previousMillis (updateDisplay s) = previousMillis s"
  "currentMillis (updateDisplay s) = currentMillis s"
  by (simp_all add: updateDisplay_def updateLights_def initializeDisplay_def setDisplayText_def Let_def)

lemma after_alert_clock [simp]:
  "previousMillis (after_alert s) = previousMillis s"
  "currentMillis (after_alert s) = currentMillis s"
  by (simp_all add: after_alert_def updateState_def)

lemma alert_phase_clock [simp]:
  "previousMillis (alert_phase i s) = millis i"
  "currentMillis (alert_phase i s) = millis i"
  by (simp_all add: alert_phase_def checkBuzzer_def updateTimers_def readInputs_def Let_def)

lemma loop_clock [simp]:
  "previousMillis (loop i s) = millis i" "currentMillis (loop i s) = millis i"
  by (simp_all add: loop_phases)

lemma elapsed_le:
  fixes t c :: ulong
  assumes "t \<le> c"
  shows "(d < c - t) = (unat t + unat d < unat c)"
proof -
  have "unat (c - t) = unat c - unat t" using assms by (simp add: unat_sub)
  moreover have "unat t \<le> unat c" using assms by (simp add: word_le_nat_alt)
  ultimately show ?thesis by (auto simp: word_less_nat_alt)
qed

lemma alert_phase_keeps:
  assumes "buzzerIsActive s" "buzzerTimestamp s \<le> previousMillis s"
    "previousMillis s \<le> millis i" "unat (millis i) \<le> unat (buzzerTimestamp s) + 500"
  shows "buzzerIsActive (alert_phase i s) \<and> buzzerTimestamp (alert_phase i s) = buzzerTimestamp s"
proof -
  have le: "buzzerTimestamp s \<le> millis i" using assms(2,3) by simp
  have nw: "\<not> millis i < previousMillis s" using assms(3) by (simp add: not_less)
  have "\<not> (500 < millis i - buzzerTimestamp s)"
    using assms(4) by (simp add: elapsed_le [OF le])
  then show ?thesis using assms(1) nw
    by (simp add: alert_phase_def checkBuzzer_def updateTimers_def readInputs_def
        BUZZER_DURATION_MS_def Let_def)
qed

lemma alert_phase_stops:
  assumes "buzzerIsActive s" "buzzerTimestamp s \<le> previousMillis s"
    "previousMillis s \<le> millis i" "unat (buzzerTimestamp s) + 500 < unat (millis i)"
  shows "\<not> buzzerIsActive (alert_phase i s)"
proof -
  have le: "buzzerTimestamp s \<le> millis i" using assms(2,3) by simp
  have nw: "\<not> millis i < previousMillis s" using assms(3) by (simp add: not_less)
  have "500 < millis i - buzzerTimestamp s"
    using assms(4) by (simp add: elapsed_le [OF le])
  then show ?thesis using assms(1) nw
    by (simp add: alert_phase_def checkBuzzer_def updateTimers_def readInputs_def
        BUZZER_DURATION_MS_def Let_def)
qed

lemma loop_keeps:
  assumes "buzzerIsActive s" "buzzerTimestamp s \<le> previousMillis s"
    "previousMillis s \<le> millis i" "unat (millis i) \<le> unat (buzzerTimestamp s) + 500"
  shows "buzzerIsActive (loop i s) \<and> buzzerTimestamp (loop i s) = buzzerTimestamp s"
  using after_alert_alert [of "alert_phase i s"] alert_phase_keeps [OF assms]
  by (simp add: loop_phases)

lemma run_keeps:
  "buzzerIsActive s \<Longrightarrow> buzzerTimestamp s \<le> previousMillis s \<Longrightarrow>
   steady (previousMillis s) js \<Longrightarrow> until (unat (buzzerTimestamp s) + 500) js \<Longrightarrow>
   buzzerIsActive (run js s) \<and> buzzerTimestamp (run js s) = buzzerTimestamp s
   \<and> buzzerTimestamp s \<le> previousMillis (run js s)"
proof (induction js arbitrary: s)
  case Nil
  then show ?case by simp
next
  case (Cons i js)
  have k: "buzzerIsActive (loop i s) \<and> buzzerTimestamp (loop i s) = buzzerTimestamp s"
    using Cons.prems by (intro loop_keeps) simp_all
  have le: "buzzerTimestamp (loop i s) \<le> previousMillis (loop i s)"
    using k Cons.prems by auto
  show ?case using Cons.IH [of "loop i s"] k le Cons.prems by simp
qed

section \<open>The alert\<close>

lemma steady_append:
  "steady (previousMillis s) (js @ ks) =
     (steady (previousMillis s) js \<and> steady (previousMillis (run js s)) ks)"
  by (induction js arbitrary: s) (simp_all, metis loop_clock(1))

text \<open>
  C8 (as amended). When the alert is active, \<open>buzz\<close> returns the state unchanged: flag,
  start time and pin. When it is idle, \<open>buzz\<close> activates it and records the current time.
  Once active with start time \<open>buzzerTimestamp s\<close>, and as long as the clock readings do
  not decrease, the alert stays active with the same start time through every iteration
  whose reading is at most 500 ms after the start, whatever the inputs (so also when
  \<open>buzz\<close> is called again), and \<open>checkBuzzer\<close> deactivates it in the first iteration whose
  reading is more than 500 ms after the start.
\<close>

theorem C8_alert:
  "(buzzerIsActive s \<longrightarrow> buzz s = s)
   \<and> (\<not> buzzerIsActive s \<longrightarrow>
        buzzerIsActive (buzz s) \<and> buzzerTimestamp (buzz s) = currentMillis s)
   \<and> (buzzerIsActive s \<and> buzzerTimestamp s \<le> previousMillis s
       \<and> steady (previousMillis s) (js @ [i])
       \<and> until (unat (buzzerTimestamp s) + 500) js
       \<and> unat (buzzerTimestamp s) + 500 < unat (millis i) \<longrightarrow>
         buzzerIsActive (run js s) \<and> buzzerTimestamp (run js s) = buzzerTimestamp s
         \<and> \<not> buzzerIsActive (alert_phase i (run js s)))"
proof -
  have a: "buzzerIsActive s \<longrightarrow> buzz s = s" by (simp add: buzz_def)
  have b: "\<not> buzzerIsActive s \<longrightarrow>
        buzzerIsActive (buzz s) \<and> buzzerTimestamp (buzz s) = currentMillis s"
    by (simp add: buzz_def)
  have c: "buzzerIsActive (run js s) \<and> buzzerTimestamp (run js s) = buzzerTimestamp s
         \<and> \<not> buzzerIsActive (alert_phase i (run js s))"
    if h: "buzzerIsActive s" "buzzerTimestamp s \<le> previousMillis s"
      "steady (previousMillis s) (js @ [i])" "until (unat (buzzerTimestamp s) + 500) js"
      "unat (buzzerTimestamp s) + 500 < unat (millis i)"
  proof -
    have st: "steady (previousMillis s) js" "previousMillis (run js s) \<le> millis i"
      using h(3) by (simp_all add: steady_append)
    have k: "buzzerIsActive (run js s) \<and> buzzerTimestamp (run js s) = buzzerTimestamp s
       \<and> buzzerTimestamp s \<le> previousMillis (run js s)"
      using run_keeps [OF h(1) h(2) st(1) h(4)] .
    have "\<not> buzzerIsActive (alert_phase i (run js s))"
      using k st(2) h(5) by (intro alert_phase_stops) simp_all
    then show ?thesis using k by simp
  qed
  show ?thesis using a b c by blast
qed

theorem C8_alert_witness:
  "buzzerIsActive (run entry_at_2001 boot)
   \<and> buzzerTimestamp (run entry_at_2001 boot) = 2001
   \<and> buzz (run entry_at_2001 boot) = run entry_at_2001 boot
   \<and> \<not> buzzerIsActive (run [quiet 700] boot)
   \<and> buzzerIsActive (buzz (run [quiet 700] boot))
   \<and> buzzerTimestamp (buzz (run [quiet 700] boot)) = 700
   \<and> buzzerIsActive (run [quiet 2300, sense_in 2501] (run entry_at_2001 boot))
   \<and> buzzerTimestamp (run [quiet 2300, sense_in 2501] (run entry_at_2001 boot)) = 2001
   \<and> \<not> buzzerIsActive
       (alert_phase (quiet 2502) (run [quiet 2300, sense_in 2501] (run entry_at_2001 boot)))"
proof -
  have s: "buzzerIsActive (run entry_at_2001 boot)"
    "buzzerTimestamp (run entry_at_2001 boot) = 2001"
    "previousMillis (run entry_at_2001 boot) = 2001"
    by (simp_all add: entry_at_2001_def start_defs task_defs const_defs Let_def)
  have q: "\<not> buzzerIsActive (run [quiet 700] boot)"
    "currentMillis (run [quiet 700] boot) = 700"
    by (simp_all add: quiet_def start_defs task_defs const_defs Let_def)
  show ?thesis
    using C8_alert [of "run entry_at_2001 boot" "[quiet 2300, sense_in 2501]" "quiet 2502"]
      C8_alert [of "run [quiet 700] boot" "[]" "quiet 2502"] s q
    by (simp add: quiet_def sense_in_def tick_def)
qed

text \<open>
  C8 as stated fails when the clock wraps around while the alert sounds: the alert
  starts at reading 4294967200; the next iteration reads 450, which is 546 ms later;
  \<open>updateTimers\<close> has set \<open>buzzerTimestamp\<close> to 0, and the alert is still active.
\<close>

theorem C8_counterexample:
  "\<not> buzzerIsActive (run [tick 4294967000 HIGH HIGH HIGH LOW HIGH] boot)
   \<and> buzzerIsActive (run entry_before_wrap boot)
   \<and> buzzerTimestamp (run entry_before_wrap boot) = 4294967200
   \<and> (450 :: ulong) - 4294967200 = 546
   \<and> buzzerIsActive (run (entry_before_wrap @ [tick 450 HIGH HIGH HIGH HIGH HIGH]) boot)
   \<and> pinBuzzer (run (entry_before_wrap @ [tick 450 HIGH HIGH HIGH HIGH HIGH]) boot) = LOW"
  by (simp add: entry_before_wrap_def start_defs task_defs const_defs Let_def)

section \<open>The hold-red window\<close>

lemma checkSensorIn_cases:
  "checkSensorIn s =
     (if sensorInAccepts s then (handleVisitorEntered s)\<lparr>sensorInTimestamp := currentMillis s\<rparr>
      else s)"
  by (simp add: checkSensorIn_def sensorInAccepts_def handleVisitorEntered_def buzz_def Let_def)

lemma handleVisitorEntered_keepRed [simp]:
  "keepRedTimestamp (handleVisitorEntered s) = currentMillis s"
  "currentMillis (handleVisitorEntered s) = currentMillis s"
  "previousMillis (handleVisitorEntered s) = previousMillis s"
  by (simp_all add: handleVisitorEntered_def buzz_def Let_def)

lemma checkSensorOut_keepRed [simp]:
  "keepRedTimestamp (checkSensorOut s) = keepRedTimestamp s"
  by (simp add: checkSensorOut_def handleVisitorLeft_def buzz_def Let_def)

lemma checkButtons_keepRed [simp]:
  "keepRedTimestamp (checkButtons s) = keepRedTimestamp s"
  by (simp add: checkButtons_def handleReset_def handleButtonUp_def handleButtonDown_def
      buzz_def Let_def)

lemma updateLights_holding:
  assumes "holding e s"
  shows "denies (updateLights s) \<and> keepRedTimestamp (updateLights s) = keepRedTimestamp s"
proof -
  have le: "keepRedTimestamp s \<le> currentMillis s" using assms by (simp add: holding_def)
  have "unat e \<le> unat (keepRedTimestamp s)"
    using assms by (simp add: holding_def word_le_nat_alt)
  then have "\<not> (2000 < currentMillis s - keepRedTimestamp s)"
    using assms by (simp add: elapsed_le [OF le] holding_def)
  moreover have "0 < keepRedTimestamp s"
    using assms by (simp add: holding_def word_greater_zero_iff)
  ultimately show ?thesis
    by (simp add: updateLights_def denies_def BUTTON_ENTRANCE_MIN_MS_def Let_def)
qed

lemma updateDisplay_holding:
  assumes "holding e s"
  shows "denies (updateDisplay s) \<and> keepRedTimestamp (updateDisplay s) = keepRedTimestamp s"
proof -
  have a: "holding e (s\<lparr>displayUpdated := False\<rparr>)"
    "holding e (initializeDisplay (s\<lparr>displayUpdated := False\<rparr>))"
    using assms by (simp_all add: holding_def initializeDisplay_def)
  show ?thesis
    using updateLights_holding [OF assms] updateLights_holding [OF a(2)]
    by (simp add: updateDisplay_def setDisplayText_def initializeDisplay_def denies_def Let_def)
qed

lemma after_alert_holding:
  assumes "holding e s"
  shows "denies (after_alert s) \<and> holding e (after_alert s)"
proof -
  have nz: "currentMillis s \<noteq> 0"
    using assms by (auto simp: holding_def)
  have le: "e \<le> currentMillis s" using assms by (auto simp: holding_def)
  have a: "holding e (checkSensorIn s)"
    using assms nz le by (simp add: checkSensorIn_cases holding_def)
  have b: "holding e (checkButtons (checkSensorOut (checkSensorIn s)))"
    using a by (simp add: holding_def)
  show ?thesis
    using updateDisplay_holding [OF b] b
    by (simp add: after_alert_def updateState_def denies_def holding_def)
qed

lemma alert_phase_keepRed:
  "previousMillis s \<le> millis i \<Longrightarrow> keepRedTimestamp (alert_phase i s) = keepRedTimestamp s"
  by (simp add: alert_phase_def checkBuzzer_def updateTimers_def readInputs_def Let_def not_less [symmetric])

lemma loop_holding:
  assumes "holding e s" "currentMillis s = previousMillis s" "previousMillis s \<le> millis i"
    "unat (millis i) \<le> unat e + 2000"
  shows "denies (loop i s) \<and> holding e (loop i s)"
proof -
  have "holding e (alert_phase i s)"
    using assms by (auto simp: holding_def alert_phase_keepRed)
  then show ?thesis by (simp add: loop_phases after_alert_holding)
qed

lemma run_holding:
  "holding e s \<Longrightarrow> currentMillis s = previousMillis s \<Longrightarrow> steady (previousMillis s) js \<Longrightarrow>
   until (unat e + 2000) js \<Longrightarrow> js \<noteq> [] \<Longrightarrow> denies (run js s) \<and> holding e (run js s)"
proof (induction js arbitrary: s)
  case Nil
  then show ?case by simp
next
  case (Cons i js)
  have k: "denies (loop i s) \<and> holding e (loop i s)"
    using Cons.prems by (intro loop_holding) simp_all
  show ?case
  proof (cases js)
    case Nil
    then show ?thesis using k by simp
  next
    case (Cons j ks)
    then show ?thesis using Cons.IH [of "loop i s"] k Cons.prems by simp
  qed
qed

lemma alert_phase_sensorIn:
  "sensorInTimestamp (alert_phase i s) =
     (if millis i < previousMillis s then 0 else sensorInTimestamp s)"
  "sensorInWasActive (alert_phase i s) = sensorInWasActive s"
  "sensorInNowActive (alert_phase i s) = (pinSensorIn i = LOW)"
  by (simp_all add: alert_phase_def checkBuzzer_def updateTimers_def readInputs_def Let_def)

lemma accepted_clock:
  assumes "sensorInAccepts (alert_phase i s)" "sensorInTimestamp s \<le> previousMillis s"
  shows "millis i \<noteq> 0"
proof
  assume z: "millis i = 0"
  show False
  proof (cases "previousMillis s = 0")
    case True
    then have "sensorInTimestamp s = 0" using assms(2) by simp
    then show False using assms(1) z True
      by (simp add: sensorInAccepts_def alert_phase_sensorIn SENSOR_DELAY_MS_def)
  next
    case False
    then have "millis i < previousMillis s" using z by (simp add: word_greater_zero_iff)
    then show False using assms(1) z
      by (simp add: sensorInAccepts_def alert_phase_sensorIn SENSOR_DELAY_MS_def)
  qed
qed

lemma entry_holding:
  assumes "sensorInAccepts (alert_phase i s)" "sensorInTimestamp s \<le> previousMillis s"
  shows "denies (loop i s) \<and> holding (millis i) (loop i s)"
proof -
  have nz: "millis i \<noteq> 0" using accepted_clock [OF assms] .
  have a: "holding (millis i) (checkSensorIn (alert_phase i s))"
    using assms(1) nz by (simp add: checkSensorIn_cases holding_def)
  have b: "holding (millis i) (checkButtons (checkSensorOut (checkSensorIn (alert_phase i s))))"
    using a by (simp add: holding_def)
  show ?thesis
    using updateDisplay_holding [OF b] b
    by (simp add: loop_phases after_alert_def updateState_def denies_def holding_def)
qed

text \<open>
  C2 (as amended). Let the entry sensor be accepted in iteration \<open>i\<close> (so that
  \<open>handleVisitorEntered\<close> is called), from a state whose entry timestamp is not ahead of
  the clock. Then at the end of that iteration and of every later iteration whose
  reading is at most 2000 ms after that of \<open>i\<close>, the clock readings not decreasing in
  between, red is on and green is off, whatever the two counters are, and the window is
  still open. And whenever \<open>updateLights\<close> runs with an open window that is more than
  2000 ms old, it closes the window and calls \<open>buzz\<close> exactly when
  \<open>visitorCount < maxVisitorCount\<close>; the light then allows in that case and denies
  otherwise.
\<close>

theorem C2_hold:
  "(sensorInAccepts (alert_phase i s) \<and> sensorInTimestamp s \<le> previousMillis s
    \<and> steady (millis i) js \<and> until (unat (millis i) + 2000) js \<longrightarrow>
      denies (run (i # js) s) \<and> keepRedTimestamp (run (i # js) s) \<noteq> 0)
   \<and> (0 < keepRedTimestamp u
       \<and> BUTTON_ENTRANCE_MIN_MS < currentMillis u - keepRedTimestamp u \<longrightarrow>
         keepRedTimestamp (updateLights u) = 0
         \<and> alert_state (updateLights u) =
             (if visitorCount u < maxVisitorCount u then alert_state (buzz u) else alert_state u)
         \<and> (visitorCount u < maxVisitorCount u \<longrightarrow>
              buzzerIsActive (updateLights u) \<and> allows (updateLights u))
         \<and> (\<not> visitorCount u < maxVisitorCount u \<longrightarrow> denies (updateLights u)))"
proof -
  have a: "denies (run (i # js) s) \<and> keepRedTimestamp (run (i # js) s) \<noteq> 0"
    if h: "sensorInAccepts (alert_phase i s)" "sensorInTimestamp s \<le> previousMillis s"
      "steady (millis i) js" "until (unat (millis i) + 2000) js"
  proof (cases js)
    case Nil
    then show ?thesis using entry_holding [OF h(1,2)] by (simp add: holding_def)
  next
    case (Cons j ks)
    have "denies (run js (loop i s)) \<and> holding (millis i) (run js (loop i s))"
      using entry_holding [OF h(1,2)] h(3,4) Cons by (intro run_holding) simp_all
    then show ?thesis by (simp add: holding_def)
  qed
  have b: "keepRedTimestamp (updateLights u) = 0
         \<and> alert_state (updateLights u) =
             (if visitorCount u < maxVisitorCount u then alert_state (buzz u) else alert_state u)
         \<and> (visitorCount u < maxVisitorCount u \<longrightarrow>
              buzzerIsActive (updateLights u) \<and> allows (updateLights u))
         \<and> (\<not> visitorCount u < maxVisitorCount u \<longrightarrow> denies (updateLights u))"
    if "0 < keepRedTimestamp u" "BUTTON_ENTRANCE_MIN_MS < currentMillis u - keepRedTimestamp u"
    using that
    by (simp add: updateLights_def buzz_def alert_state_def allows_def denies_def Let_def)
  show ?thesis using a b by blast
qed

theorem C2_hold_witness:
  "sensorInAccepts (alert_phase (quiet 2001) (run [tick 2000 HIGH HIGH HIGH LOW HIGH] boot))
   \<and> visitorCount (run (quiet 2001 # [quiet 3000, quiet 4001])
        (run [tick 2000 HIGH HIGH HIGH LOW HIGH] boot)) = 1
   \<and> maxVisitorCount (run (quiet 2001 # [quiet 3000, quiet 4001])
        (run [tick 2000 HIGH HIGH HIGH LOW HIGH] boot)) = 20
   \<and> denies (run (quiet 2001 # [quiet 3000, quiet 4001])
        (run [tick 2000 HIGH HIGH HIGH LOW HIGH] boot))
   \<and> 0 < keepRedTimestamp (lights_state (quiet 4002) (run entry_at_2001 boot))
   \<and> \<not> buzzerIsActive (lights_state (quiet 4002) (run entry_at_2001 boot))
   \<and> keepRedTimestamp (updateLights (lights_state (quiet 4002) (run entry_at_2001 boot))) = 0
   \<and> buzzerIsActive (updateLights (lights_state (quiet 4002) (run entry_at_2001 boot)))
   \<and> allows (updateLights (lights_state (quiet 4002) (run entry_at_2001 boot)))"
proof -
  have s: "sensorInAccepts (alert_phase (quiet 2001) (run [tick 2000 HIGH HIGH HIGH LOW HIGH] boot))"
    "sensorInTimestamp (run [tick 2000 HIGH HIGH HIGH LOW HIGH] boot)
       \<le> previousMillis (run [tick 2000 HIGH HIGH HIGH LOW HIGH] boot)"
    by (simp_all add: sensorInAccepts_def alert_phase_def quiet_def start_defs task_defs
        const_defs Let_def)
  have c: "visitorCount (run (quiet 2001 # [quiet 3000, quiet 4001])
        (run [tick 2000 HIGH HIGH HIGH LOW HIGH] boot)) = 1"
    "maxVisitorCount (run (quiet 2001 # [quiet 3000, quiet 4001])
        (run [tick 2000 HIGH HIGH HIGH LOW HIGH] boot)) = 20"
    by (simp_all add: quiet_def start_defs task_defs const_defs Let_def)
  have u: "0 < keepRedTimestamp (lights_state (quiet 4002) (run entry_at_2001 boot))"
    "BUTTON_ENTRANCE_MIN_MS < currentMillis (lights_state (quiet 4002) (run entry_at_2001 boot))
        - keepRedTimestamp (lights_state (quiet 4002) (run entry_at_2001 boot))"
    "visitorCount (lights_state (quiet 4002) (run entry_at_2001 boot))
       < maxVisitorCount (lights_state (quiet 4002) (run entry_at_2001 boot))"
    "\<not> buzzerIsActive (lights_state (quiet 4002) (run entry_at_2001 boot))"
    by (simp_all add: lights_state_def alert_phase_def entry_at_2001_def quiet_def start_defs
        task_defs const_defs Let_def)
  show ?thesis
    using C2_hold [of "quiet 2001" "run [tick 2000 HIGH HIGH HIGH LOW HIGH] boot"
        "[quiet 3000, quiet 4001]" "lights_state (quiet 4002) (run entry_at_2001 boot)"] s c u
    by (simp add: quiet_def tick_def)
qed

text \<open>
  C2 as stated fails when the clock wraps around inside the window: the entry is
  accepted at reading 4294967200 with 1 of 20 visitors and the light denies; the next
  iteration reads 100, which is 196 ms later; \<open>updateTimers\<close> has set \<open>keepRedTimestamp\<close>
  to 0 and the light allows again.
\<close>

theorem C2_counterexample:
  "visitorCount (run entry_before_wrap boot) = 1
   \<and> maxVisitorCount (run entry_before_wrap boot) = 20
   \<and> keepRedTimestamp (run entry_before_wrap boot) = 4294967200
   \<and> denies (run entry_before_wrap boot)
   \<and> (100 :: ulong) - 4294967200 = 196
   \<and> allows (run (entry_before_wrap @ [quiet 100]) boot)
   \<and> keepRedTimestamp (run (entry_before_wrap @ [quiet 100]) boot) = 0
   \<and> visitorCount (run (entry_before_wrap @ [quiet 100]) boot) = 1"
  by (simp add: entry_before_wrap_def quiet_def allows_def denies_def start_defs task_defs
      const_defs Let_def)

section \<open>Debouncing the entry sensor\<close>

lemma checkSensorOut_sensorIn [simp]:
  "sensorInTimestamp (checkSensorOut s) = sensorInTimestamp s"
  "sensorInNowActive (checkSensorOut s) = sensorInNowActive s"
  by (simp_all add: checkSensorOut_def handleVisitorLeft_def buzz_def Let_def)

lemma checkButtons_sensorIn [simp]:
  "sensorInTimestamp (checkButtons s) = sensorInTimestamp s"
  "sensorInNowActive (checkButtons s) = sensorInNowActive s"
  by (simp_all add: checkButtons_def handleReset_def handleButtonUp_def handleButtonDown_def
      buzz_def Let_def)

lemma updateDisplay_sensorIn [simp]:
  "sensorInTimestamp (updateDisplay s) = sensorInTimestamp s"
  "sensorInNowActive (updateDisplay s) = sensorInNowActive s"
  by (simp_all add: updateDisplay_def updateLights_def initializeDisplay_def setDisplayText_def
      buzz_def Let_def)

lemma checkSensorIn_sensorIn:
  "sensorInTimestamp (checkSensorIn s) =
     (if sensorInAccepts s then currentMillis s else sensorInTimestamp s)"
  "sensorInNowActive (checkSensorIn s) = sensorInNowActive s"
  by (simp_all add: checkSensorIn_cases handleVisitorEntered_def buzz_def Let_def)

lemma loop_sensorIn:
  "sensorInTimestamp (loop i s) =
     (if sensorInAccepts (alert_phase i s) then millis i
      else if millis i < previousMillis s then 0 else sensorInTimestamp s)"
  "sensorInWasActive (loop i s) = (pinSensorIn i = LOW)"
  by (simp_all add: loop_phases after_alert_def updateState_def checkSensorIn_sensorIn
      alert_phase_sensorIn)

lemma accepts_spec:
  assumes "sensorInTimestamp s \<le> previousMillis s"
  shows "sensorInAccepts (alert_phase i s) =
     (sensorInWasActive s \<and> pinSensorIn i \<noteq> LOW \<and>
      (if unat (millis i) < unat (previousMillis s) then 0 else unat (sensorInTimestamp s)) + 1000
        < unat (millis i))"
proof (cases "millis i < previousMillis s")
  case True
  have "(1000 < millis i - 0) = (unat (0 :: ulong) + unat (1000 :: ulong) < unat (millis i))"
    by (intro elapsed_le) simp
  then show ?thesis using True
    by (simp add: sensorInAccepts_def alert_phase_sensorIn SENSOR_DELAY_MS_def word_less_nat_alt)
next
  case False
  then have le: "sensorInTimestamp s \<le> millis i" using assms by (simp add: not_less)
  show ?thesis using False elapsed_le [OF le, of 1000]
    by (simp add: sensorInAccepts_def alert_phase_sensorIn SENSOR_DELAY_MS_def word_less_nat_alt)
qed

lemma loop_sensorIn_inv:
  assumes "sensorInTimestamp s \<le> previousMillis s"
  shows "sensorInTimestamp (loop i s) \<le> previousMillis (loop i s)"
  using assms by (auto simp: loop_sensorIn not_less)

lemma run_sensorIn_inv:
  "sensorInTimestamp s \<le> previousMillis s \<Longrightarrow>
   sensorInTimestamp (run js s) \<le> previousMillis (run js s)"
proof (induction js arbitrary: s)
  case Nil
  then show ?case by simp
next
  case (Cons i js)
  show ?case using Cons.IH [OF loop_sensorIn_inv [OF Cons.prems]] by simp
qed

lemma count_enters_spec:
  "sensorInTimestamp s \<le> previousMillis s \<Longrightarrow>
   count_enters ticks s =
     spec_enters (unat (previousMillis s)) (unat (sensorInTimestamp s)) (sensorInWasActive s) ticks"
proof (induction ticks arbitrary: s)
  case Nil
  then show ?case by simp
next
  case (Cons i ticks)
  have inv: "sensorInTimestamp (loop i s) \<le> previousMillis (loop i s)"
    using Cons.prems by (rule loop_sensorIn_inv)
  show ?case
    using Cons.IH [OF inv] accepts_spec [OF Cons.prems, of i]
    by (simp add: loop_sensorIn Let_def word_less_nat_alt)
qed

text \<open>
  C1 (as amended). When both tests of \<open>checkSensorIn\<close> succeed it makes exactly one call
  of \<open>handleVisitorEntered\<close> and records the current time; otherwise it leaves the state
  as it is, so that a rejected edge is neither queued nor merged. Over any run that
  starts in a state whose entry timestamp is not ahead of the clock, the number of calls
  of \<open>handleVisitorEntered\<close> is the number of events accepted by \<open>spec_enters\<close>: one for
  each trailing edge whose reading is more than 1000 ms after the reading of the last
  accepted event (or after 0), none for a trailing edge at most 1000 ms after it.
\<close>

theorem C1_debounce:
  "(sensorInAccepts s \<longrightarrow>
      checkSensorIn s = (handleVisitorEntered s)\<lparr>sensorInTimestamp := currentMillis s\<rparr>)
   \<and> (\<not> sensorInAccepts s \<longrightarrow> checkSensorIn s = s)
   \<and> (sensorInTimestamp s \<le> previousMillis s \<longrightarrow>
        count_enters ticks s =
          spec_enters (unat (previousMillis s)) (unat (sensorInTimestamp s))
            (sensorInWasActive s) ticks)"
  using count_enters_spec [of s ticks] by (simp add: checkSensorIn_cases)

theorem C1_debounce_witness:
  "sensorInTimestamp boot \<le> previousMillis boot
   \<and> count_enters six_entries boot = 6
   \<and> count_enters (entry_at_2001 @ [tick 3001 HIGH HIGH HIGH LOW HIGH, quiet 3002]) boot = 2
   \<and> sensorInAccepts (alert_phase (quiet 2001) (run [tick 2000 HIGH HIGH HIGH LOW HIGH] boot))
   \<and> visitorCount (checkSensorIn
        (alert_phase (quiet 2001) (run [tick 2000 HIGH HIGH HIGH LOW HIGH] boot))) = 1
   \<and> \<not> sensorInAccepts (alert_phase (quiet 900) (run [tick 800 HIGH HIGH HIGH LOW HIGH] boot))
   \<and> checkSensorIn (alert_phase (quiet 900) (run [tick 800 HIGH HIGH HIGH LOW HIGH] boot))
       = alert_phase (quiet 900) (run [tick 800 HIGH HIGH HIGH LOW HIGH] boot)"
proof -
  have b: "sensorInTimestamp boot \<le> previousMillis boot" "previousMillis boot = 0"
    "sensorInTimestamp boot = 0" "\<not> sensorInWasActive boot"
    by (simp_all add: start_defs handleReset_def initializeDisplay_def buzz_def)
  have a: "sensorInAccepts (alert_phase (quiet 2001) (run [tick 2000 HIGH HIGH HIGH LOW HIGH] boot))"
    "\<not> sensorInAccepts (alert_phase (quiet 900) (run [tick 800 HIGH HIGH HIGH LOW HIGH] boot))"
    by (simp_all add: sensorInAccepts_def alert_phase_def quiet_def start_defs task_defs
        const_defs Let_def)
  have v: "visitorCount (alert_phase (quiet 2001) (run [tick 2000 HIGH HIGH HIGH LOW HIGH] boot)) = 0"
    by (simp add: alert_phase_def quiet_def start_defs task_defs const_defs Let_def)
  show ?thesis
    using C1_debounce [of boot six_entries]
      C1_debounce [of boot "entry_at_2001 @ [tick 3001 HIGH HIGH HIGH LOW HIGH, quiet 3002]"]
      C1_debounce [of "alert_phase (quiet 2001) (run [tick 2000 HIGH HIGH HIGH LOW HIGH] boot)" "[]"]
      C1_debounce [of "alert_phase (quiet 900) (run [tick 800 HIGH HIGH HIGH LOW HIGH] boot)" "[]"]
      a b v
    by (simp add: six_entries_def entry_at_2001_def quiet_def tick_def handleVisitorEntered_def
        buzz_def Let_def)
qed

text \<open>
  C1 as stated fails for two trailing edges exactly 1000 ms apart: the first, at
  reading 2001, is accepted; the second, at reading 3001, is a trailing edge and is
  dropped, because the test is \<open>>\<close> and not \<open>\<ge>\<close>. It also fails across a wrap of the
  clock: after an event accepted at reading 4294966296, the trailing edge at reading
  500, which is 1500 ms later, is dropped, because \<open>updateTimers\<close> has set
  \<open>sensorInTimestamp\<close> to 0.
\<close>

theorem C1_counterexample:
  "count_enters entry_at_2001 boot = 1
   \<and> sensorInTimestamp (run entry_at_2001 boot) = 2001
   \<and> sensorInWasActive (run (entry_at_2001 @ [sense_in 2500]) boot)
   \<and> pinSensorIn (quiet 3001) = HIGH
   \<and> millis (quiet 3001) - 2001 = 1000
   \<and> count_enters (entry_at_2001 @ [sense_in 2500, quiet 3001]) boot = 1
   \<and> visitorCount (run (entry_at_2001 @ [sense_in 2500, quiet 3001]) boot) = 1
   \<and> count_enters [sense_in 4294966000, quiet 4294966296] boot = 1
   \<and> sensorInTimestamp (run [sense_in 4294966000, quiet 4294966296] boot) = 4294966296
   \<and> millis (quiet 500) - 4294966296 = 1500
   \<and> count_enters
        [sense_in 4294966000, quiet 4294966296, sense_in 4294967000, quiet 500] boot = 1"
  by (simp add: sensorInAccepts_def alert_phase_def entry_at_2001_def quiet_def sense_in_def
      start_defs task_defs const_defs Let_def)

section \<open>The long press of reset\<close>

lemma loop_buttons: "loop i s = updateState (updateDisplay (checkButtons (buttons_state i s)))"
  by (simp add: loop_def buttons_state_def alert_phase_def)

lemma alert_phase_buttons:
  "buttonResetBlocked (alert_phase i s) = buttonResetBlocked s"
  "buttonResetWasPressed (alert_phase i s) = buttonResetWasPressed s"
  "buttonResetNowPressed (alert_phase i s) = (pinButtonReset i = LOW)"
  "buttonUpNowPressed (alert_phase i s) = (pinButtonUp i = LOW)"
  "buttonDownNowPressed (alert_phase i s) = (pinButtonDown i = LOW)"
  "buttonResetTimestamp (alert_phase i s) =
     (if millis i < previousMillis s then 0 else buttonResetTimestamp s)"
  by (simp_all add: alert_phase_def checkBuzzer_def updateTimers_def readInputs_def Let_def)

lemma checkSensorIn_buttons [simp]:
  "buttonResetBlocked (checkSensorIn s) = buttonResetBlocked s"
  "buttonResetWasPressed (checkSensorIn s) = buttonResetWasPressed s"
  "buttonResetNowPressed (checkSensorIn s) = buttonResetNowPressed s"
  "buttonUpNowPressed (checkSensorIn s) = buttonUpNowPressed s"
  "buttonDownNowPressed (checkSensorIn s) = buttonDownNowPressed s"
  "buttonResetTimestamp (checkSensorIn s) = buttonResetTimestamp s"
  by (simp_all add: checkSensorIn_def handleVisitorEntered_def buzz_def Let_def)

lemma checkSensorOut_buttons [simp]:
  "buttonResetBlocked (checkSensorOut s) = buttonResetBlocked s"
  "buttonResetWasPressed (checkSensorOut s) = buttonResetWasPressed s"
  "buttonResetNowPressed (checkSensorOut s) = buttonResetNowPressed s"
  "buttonUpNowPressed (checkSensorOut s) = buttonUpNowPressed s"
  "buttonDownNowPressed (checkSensorOut s) = buttonDownNowPressed s"
  "buttonResetTimestamp (checkSensorOut s) = buttonResetTimestamp s"
  by (simp_all add: checkSensorOut_def handleVisitorLeft_def buzz_def Let_def)

lemma buttons_state_fields:
  "buttonResetBlocked (buttons_state i s) = buttonResetBlocked s"
  "buttonResetWasPressed (buttons_state i s) = buttonResetWasPressed s"
  "buttonResetNowPressed (buttons_state i s) = (pinButtonReset i = LOW)"
  "buttonUpNowPressed (buttons_state i s) = (pinButtonUp i = LOW)"
  "buttonDownNowPressed (buttons_state i s) = (pinButtonDown i = LOW)"
  "currentMillis (buttons_state i s) = millis i"
  "buttonResetTimestamp (buttons_state i s) =
     (if millis i < previousMillis s then 0 else buttonResetTimestamp s)"
  by (simp_all add: buttons_state_def alert_phase_buttons)

lemma updateDisplay_reset [simp]:
  "buttonResetBlocked (updateDisplay s) = buttonResetBlocked s"
  "buttonResetNowPressed (updateDisplay s) = buttonResetNowPressed s"
  "buttonResetTimestamp (updateDisplay s) = buttonResetTimestamp s"
  by (simp_all add: updateDisplay_def updateLights_def initializeDisplay_def setDisplayText_def
      buzz_def Let_def)

lemma updateState_reset [simp]:
  "buttonResetBlocked (updateState s) = buttonResetBlocked s"
  "buttonResetWasPressed (updateState s) = buttonResetNowPressed s"
  "buttonResetTimestamp (updateState s) = buttonResetTimestamp s"
  by (simp_all add: updateState_def)

lemma checkButtons_fires:
  "longPressFires s \<Longrightarrow> checkButtons s = handleReset (s\<lparr>buttonResetBlocked := True\<rparr>)"
  by (simp add: checkButtons_def longPressFires_def Let_def)

lemma handleReset_fields [simp]:
  "visitorCount (handleReset s) = 0" "maxVisitorCount (handleReset s) = 20"
  "buzzerIsActive (handleReset s)"
  "buttonResetBlocked (handleReset s) = buttonResetBlocked s"
  "buttonResetNowPressed (handleReset s) = buttonResetNowPressed s"
  "buttonResetTimestamp (handleReset s) = buttonResetTimestamp s"
  by (simp_all add: handleReset_def buzz_def)

lemma checkButtons_idle:
  "\<not> longPressFires s \<Longrightarrow> buttonResetWasPressed s \<Longrightarrow> buttonResetNowPressed s \<Longrightarrow>
   \<not> buttonUpNowPressed s \<Longrightarrow> \<not> buttonDownNowPressed s \<Longrightarrow> checkButtons s = s"
  by (auto simp: checkButtons_def longPressFires_def Let_def)

lemma checkButtons_rising:
  "\<not> buttonResetWasPressed s \<Longrightarrow> buttonResetNowPressed s \<Longrightarrow>
   \<not> buttonUpNowPressed s \<Longrightarrow> \<not> buttonDownNowPressed s \<Longrightarrow>
   checkButtons s = s\<lparr>buttonResetTimestamp := currentMillis s\<rparr>"
  by (simp add: checkButtons_def Let_def)

lemma checkButtons_now [simp]:
  "buttonResetNowPressed (checkButtons s) = buttonResetNowPressed s"
  by (simp add: checkButtons_def handleReset_def handleButtonUp_def handleButtonDown_def
      buzz_def Let_def)

lemma loop_reset_fields:
  "buttonResetWasPressed (loop i s) = (pinButtonReset i = LOW)"
  "buttonResetBlocked (loop i s) = buttonResetBlocked (checkButtons (buttons_state i s))"
  "buttonResetTimestamp (loop i s) = buttonResetTimestamp (checkButtons (buttons_state i s))"
  by (simp_all add: loop_buttons buttons_state_fields)

lemma rising_tick:
  assumes "\<not> buttonResetWasPressed s" "\<not> buttonResetBlocked s" "held [i]"
  shows "\<not> longPressFires (buttons_state i s) \<and> pressing (millis i) False (loop i s)"
proof -
  have f: "\<not> longPressFires (buttons_state i s)"
    using assms by (simp add: longPressFires_def buttons_state_fields)
  have "checkButtons (buttons_state i s) =
      (buttons_state i s)\<lparr>buttonResetTimestamp := currentMillis (buttons_state i s)\<rparr>"
    using assms by (intro checkButtons_rising) (simp_all add: buttons_state_fields)
  then show ?thesis using f assms
    by (simp add: loop_reset_fields pressing_def buttons_state_fields)
qed

lemma fires_iff:
  assumes "pressing t b s" "held [i]" "previousMillis s \<le> millis i"
  shows "longPressFires (buttons_state i s) = (\<not> b \<and> unat t + 5000 < unat (millis i))"
proof -
  have nw: "\<not> millis i < previousMillis s" using assms(3) by (simp add: not_less)
  have le: "t \<le> millis i" using assms(1,3) by (auto simp: pressing_def)
  show ?thesis using assms(1,2) nw elapsed_le [OF le, of 5000]
    by (auto simp: longPressFires_def buttons_state_fields pressing_def BUTTON_LONG_DELAY_MS_def)
qed

lemma held_tick:
  assumes "pressing t b s" "held [i]" "previousMillis s \<le> millis i"
  shows "pressing t (b \<or> unat t + 5000 < unat (millis i)) (loop i s)"
proof (cases "longPressFires (buttons_state i s)")
  case True
  then have "\<not> b \<and> unat t + 5000 < unat (millis i)" using fires_iff [OF assms] by simp
  moreover have nw: "\<not> millis i < previousMillis s" using assms(3) by (simp add: not_less)
  moreover have le: "t \<le> millis i" using assms(1,3) by (auto simp: pressing_def)
  ultimately show ?thesis using assms(1,2) True
    by (simp add: loop_reset_fields checkButtons_fires pressing_def buttons_state_fields)
next
  case False
  then have nf: "b \<or> \<not> unat t + 5000 < unat (millis i)" using fires_iff [OF assms] by simp
  have nw: "\<not> millis i < previousMillis s" using assms(3) by (simp add: not_less)
  have le: "t \<le> millis i" using assms(1,3) by (auto simp: pressing_def)
  have "checkButtons (buttons_state i s) = buttons_state i s"
    using False assms by (intro checkButtons_idle) (simp_all add: buttons_state_fields pressing_def)
  then show ?thesis using assms(1,2) nf nw le
    by (auto simp: loop_reset_fields pressing_def buttons_state_fields)
qed

lemma count_combine:
  assumes "f = (\<not> b \<and> x)" "c = (if \<not> (b \<or> x) \<and> l then 1 else 0)" "bl = ((b \<or> x) \<or> l)"
  shows "(if f then 1 else 0) + c = (if \<not> b \<and> (x \<or> l) then (1::nat) else 0)
    \<and> bl = (b \<or> (x \<or> l))"
  using assms by (cases b; cases x; cases l) simp_all

lemma run_held:
  "pressing t b s \<Longrightarrow> held js \<Longrightarrow> steady (previousMillis s) js \<Longrightarrow>
   count_resets js s = (if \<not> b \<and> later (unat t + 5000) js then 1 else 0)
   \<and> buttonResetBlocked (run js s) = (b \<or> later (unat t + 5000) js)"
proof (induction js arbitrary: s b)
  case Nil
  then show ?case by (simp add: pressing_def)
next
  case (Cons i js)
  have h: "held [i]" "previousMillis s \<le> millis i" using Cons.prems by simp_all
  have p: "pressing t (b \<or> unat t + 5000 < unat (millis i)) (loop i s)"
    using held_tick [OF Cons.prems(1) h] .
  have f: "longPressFires (buttons_state i s) = (\<not> b \<and> unat t + 5000 < unat (millis i))"
    using fires_iff [OF Cons.prems(1) h] .
  have r: "held js" "steady (previousMillis (loop i s)) js" using Cons.prems by simp_all
  note ih = Cons.IH [OF p r]
  have c: "count_resets (i # js) s =
      (if longPressFires (buttons_state i s) then 1 else 0) + count_resets js (loop i s)"
    "run (i # js) s = run js (loop i s)"
    "later (unat t + 5000) (i # js) =
      (unat t + 5000 < unat (millis i) \<or> later (unat t + 5000) js)"
    by simp_all
  show ?case
    unfolding c by (rule count_combine [OF f conjunct1 [OF ih] conjunct2 [OF ih]])
qed

lemma checkButtons_branches:
  "checkButtons s =
     (if longPressFires s then handleReset (s\<lparr>buttonResetBlocked := True\<rparr>)
      else if upRepeats s
      then handleButtonUp ((resetEdge s)\<lparr>buttonResetBlocked := buttonResetNowPressed s\<rparr>)
      else if downRepeats s
      then handleButtonDown ((resetEdge s)\<lparr>buttonResetBlocked := buttonResetNowPressed s\<rparr>)
      else resetEdge s)"
  by (auto simp: checkButtons_def longPressFires_def upRepeats_def downRepeats_def resetEdge_def
      Let_def)

lemma buttons_state_max [simp]:
  "maxVisitorCount (buttons_state i s) = maxVisitorCount s"
  by (simp add: buttons_state_def alert_phase_def checkSensorOut_def checkSensorIn_def
      handleVisitorEntered_def handleVisitorLeft_def buzz_def checkBuzzer_def updateTimers_def
      readInputs_def Let_def)

lemma updateDisplay_max [simp]:
  "maxVisitorCount (updateDisplay s) = maxVisitorCount s"
  by (simp add: updateDisplay_def updateLights_def initializeDisplay_def setDisplayText_def
      buzz_def Let_def)

lemma loop_max:
  "maxVisitorCount (loop i s) = maxVisitorCount (checkButtons (buttons_state i s))"
  by (simp add: loop_buttons updateState_def)

lemma rising_tick_max:
  assumes "\<not> buttonResetWasPressed s" "held [i]"
  shows "maxVisitorCount (loop i s) = maxVisitorCount s"
proof -
  have "checkButtons (buttons_state i s) =
      (buttons_state i s)\<lparr>buttonResetTimestamp := currentMillis (buttons_state i s)\<rparr>"
    using assms by (intro checkButtons_rising) (simp_all add: buttons_state_fields)
  then show ?thesis by (simp add: loop_max)
qed

lemma held_tick_max:
  assumes "pressing t b s" "held [i]" "previousMillis s \<le> millis i"
  shows "maxVisitorCount (loop i s) =
     (if \<not> b \<and> unat t + 5000 < unat (millis i) then 20 else maxVisitorCount s)"
proof (cases "longPressFires (buttons_state i s)")
  case True
  then show ?thesis using fires_iff [OF assms] by (simp add: loop_max checkButtons_fires)
next
  case False
  have "checkButtons (buttons_state i s) = buttons_state i s"
    using False assms by (intro checkButtons_idle) (simp_all add: buttons_state_fields pressing_def)
  then show ?thesis using False fires_iff [OF assms] by (auto simp: loop_max)
qed

lemma max_combine:
  assumes "m1 = (if \<not> b \<and> x then 20 else (m :: ulong))"
    "m2 = (if \<not> (b \<or> x) \<and> l then 20 else m1)"
  shows "m2 = (if \<not> b \<and> (x \<or> l) then 20 else m)"
  using assms by (cases b; cases x; cases l) simp_all

lemma run_held_max:
  "pressing t b s \<Longrightarrow> held js \<Longrightarrow> steady (previousMillis s) js \<Longrightarrow>
   maxVisitorCount (run js s) =
     (if \<not> b \<and> later (unat t + 5000) js then 20 else maxVisitorCount s)"
proof (induction js arbitrary: s b)
  case Nil
  then show ?case by simp
next
  case (Cons i js)
  have h: "held [i]" "previousMillis s \<le> millis i" using Cons.prems by simp_all
  have p: "pressing t (b \<or> unat t + 5000 < unat (millis i)) (loop i s)"
    using held_tick [OF Cons.prems(1) h] .
  have m: "maxVisitorCount (loop i s) =
      (if \<not> b \<and> unat t + 5000 < unat (millis i) then 20 else maxVisitorCount s)"
    using held_tick_max [OF Cons.prems(1) h] .
  have r: "held js" "steady (previousMillis (loop i s)) js" using Cons.prems by simp_all
  note ih = Cons.IH [OF p r]
  have c: "run (i # js) s = run js (loop i s)"
    "later (unat t + 5000) (i # js) =
      (unat t + 5000 < unat (millis i) \<or> later (unat t + 5000) js)"
    by simp_all
  show ?case unfolding c by (rule max_combine [OF m ih])
qed

text \<open>
  C6 (as amended). Let reset be released and the lockout clear, and let reset then be
  pressed through the iterations \<open>i # js\<close>, with neither up nor down pressed and the clock
  readings not decreasing. Then \<open>handleReset\<close> is called exactly once during the hold when
  some iteration of the hold reads more than 5000 ms after the reading of \<open>i\<close>, and not at
  all otherwise; the lockout flag is set at the end of the hold in the first case only,
  and the maximum at the end of the hold is 20 in the first case and its value before
  the hold in the second. When the long press fires, \<open>checkButtons\<close> sets the lockout and
  does \<open>handleReset\<close>: the counters become (0, 20) and \<open>buzz\<close> is called. While the lockout
  is set and reset is pressed the long press cannot fire and the lockout stays set;
  whenever reset is not pressed, \<open>checkButtons\<close> leaves the lockout clear. Conversely,
  when the long press does not fire, \<open>checkButtons\<close> does not call \<open>handleReset\<close>: it is
  the up branch, the down branch or the first statement alone; and in an iteration of
  the hold (reset pressed, up and down not) it changes nothing but, on the first
  iteration of the press, \<open>buttonResetTimestamp\<close>: both counters, the lockout and the
  alert stay as they are.
\<close>

theorem C6_long_press:
  "(\<not> buttonResetWasPressed s \<and> \<not> buttonResetBlocked s \<and> held (i # js)
    \<and> steady (previousMillis s) (i # js) \<longrightarrow>
      count_resets (i # js) s = (if later (unat (millis i) + 5000) js then 1 else 0)
      \<and> buttonResetBlocked (run (i # js) s) = later (unat (millis i) + 5000) js
      \<and> maxVisitorCount (run (i # js) s) =
          (if later (unat (millis i) + 5000) js then 20 else maxVisitorCount s))
   \<and> (longPressFires u \<longrightarrow>
        checkButtons u = handleReset (u\<lparr>buttonResetBlocked := True\<rparr>)
        \<and> visitorCount (checkButtons u) = 0 \<and> maxVisitorCount (checkButtons u) = 20
        \<and> buttonResetBlocked (checkButtons u) \<and> buzzerIsActive (checkButtons u)
        \<and> alert_state (checkButtons u) = alert_state (buzz u))
   \<and> (buttonResetBlocked u \<and> buttonResetNowPressed u \<longrightarrow>
        \<not> longPressFires u \<and> buttonResetBlocked (checkButtons u))
   \<and> (\<not> buttonResetNowPressed u \<longrightarrow> \<not> buttonResetBlocked (checkButtons u))
   \<and> (\<not> longPressFires u \<longrightarrow>
        checkButtons u =
          (if upRepeats u
           then handleButtonUp ((resetEdge u)\<lparr>buttonResetBlocked := buttonResetNowPressed u\<rparr>)
           else if downRepeats u
           then handleButtonDown
                  ((resetEdge u)\<lparr>buttonResetBlocked := buttonResetNowPressed u\<rparr>)
           else resetEdge u))
   \<and> (\<not> longPressFires u \<and> buttonResetNowPressed u \<and> \<not> buttonUpNowPressed u
       \<and> \<not> buttonDownNowPressed u \<longrightarrow>
        checkButtons u =
          (if buttonResetWasPressed u then u
           else u\<lparr>buttonResetTimestamp := currentMillis u\<rparr>)
        \<and> visitorCount (checkButtons u) = visitorCount u
        \<and> maxVisitorCount (checkButtons u) = maxVisitorCount u
        \<and> buttonResetBlocked (checkButtons u) = buttonResetBlocked u
        \<and> alert_state (checkButtons u) = alert_state u)"
proof -
  have a: "count_resets (i # js) s = (if later (unat (millis i) + 5000) js then 1 else 0)
      \<and> buttonResetBlocked (run (i # js) s) = later (unat (millis i) + 5000) js
      \<and> maxVisitorCount (run (i # js) s) =
          (if later (unat (millis i) + 5000) js then 20 else maxVisitorCount s)"
    if h: "\<not> buttonResetWasPressed s" "\<not> buttonResetBlocked s" "held (i # js)"
      "steady (previousMillis s) (i # js)"
  proof -
    have hi: "held [i]" "held js" "steady (previousMillis (loop i s)) js"
      using h(3,4) by simp_all
    have r: "\<not> longPressFires (buttons_state i s)" "pressing (millis i) False (loop i s)"
      using rising_tick [OF h(1,2) hi(1)] by simp_all
    have m: "maxVisitorCount (loop i s) = maxVisitorCount s"
      using rising_tick_max [OF h(1) hi(1)] .
    show ?thesis using run_held [OF r(2) hi(2,3)] run_held_max [OF r(2) hi(2,3)] r(1) m by simp
  qed
  have b: "checkButtons u = handleReset (u\<lparr>buttonResetBlocked := True\<rparr>)
        \<and> visitorCount (checkButtons u) = 0 \<and> maxVisitorCount (checkButtons u) = 20
        \<and> buttonResetBlocked (checkButtons u) \<and> buzzerIsActive (checkButtons u)
        \<and> alert_state (checkButtons u) = alert_state (buzz u)"
    if "longPressFires u"
    using that by (simp add: checkButtons_fires) (simp add: handleReset_def buzz_def alert_state_def)
  have c: "\<not> longPressFires u \<and> buttonResetBlocked (checkButtons u)"
    if "buttonResetBlocked u" "buttonResetNowPressed u"
    using that
    by (simp add: longPressFires_def checkButtons_def handleReset_def handleButtonUp_def
        handleButtonDown_def buzz_def Let_def)
  have d: "\<not> buttonResetBlocked (checkButtons u)" if "\<not> buttonResetNowPressed u"
    using that
    by (simp add: checkButtons_def handleReset_def handleButtonUp_def handleButtonDown_def
        buzz_def Let_def)
  have e: "checkButtons u =
          (if upRepeats u
           then handleButtonUp ((resetEdge u)\<lparr>buttonResetBlocked := buttonResetNowPressed u\<rparr>)
           else if downRepeats u
           then handleButtonDown
                  ((resetEdge u)\<lparr>buttonResetBlocked := buttonResetNowPressed u\<rparr>)
           else resetEdge u)"
    if "\<not> longPressFires u"
    using that checkButtons_branches [of u] by simp
  have f: "checkButtons u =
          (if buttonResetWasPressed u then u
           else u\<lparr>buttonResetTimestamp := currentMillis u\<rparr>)
        \<and> visitorCount (checkButtons u) = visitorCount u
        \<and> maxVisitorCount (checkButtons u) = maxVisitorCount u
        \<and> buttonResetBlocked (checkButtons u) = buttonResetBlocked u
        \<and> alert_state (checkButtons u) = alert_state u"
    if "\<not> longPressFires u" "buttonResetNowPressed u" "\<not> buttonUpNowPressed u"
      "\<not> buttonDownNowPressed u"
    using that checkButtons_branches [of u]
    by (simp add: upRepeats_def downRepeats_def resetEdge_def alert_state_def)
  show ?thesis using a b c d e f by blast
qed

lemma after_up_state:
  "\<not> buttonResetWasPressed after_up" "\<not> buttonResetBlocked after_up"
  "previousMillis after_up = 600" "maxVisitorCount after_up = 21"
  by (simp_all add: after_up_def start_defs task_defs const_defs Let_def)

theorem C6_long_press_witness:
  "\<not> buttonResetWasPressed after_up \<and> \<not> buttonResetBlocked after_up
   \<and> maxVisitorCount after_up = 21
   \<and> count_resets [press_reset 1000, press_reset 3000, press_reset 6001, press_reset 9000,
        press_reset 20000] after_up = 1
   \<and> buttonResetBlocked (run [press_reset 1000, press_reset 3000, press_reset 6001,
        press_reset 9000, press_reset 20000] after_up)
   \<and> maxVisitorCount (run [press_reset 1000, press_reset 3000, press_reset 6001,
        press_reset 9000, press_reset 20000] after_up) = 20
   \<and> count_resets [press_reset 1000, press_reset 3000, press_reset 6000] after_up = 0
   \<and> maxVisitorCount (run [press_reset 1000, press_reset 3000, press_reset 6000] after_up) = 21
   \<and> longPressFires
        (buttons_state (press_reset 6001) (run [press_reset 1000, press_reset 3000] after_up))
   \<and> maxVisitorCount (checkButtons
        (buttons_state (press_reset 6001) (run [press_reset 1000, press_reset 3000] after_up))) = 20
   \<and> buttonResetNowPressed (buttons_state (press_reset 9000)
        (run [press_reset 1000, press_reset 3000, press_reset 6001] after_up))
   \<and> buttonResetBlocked (checkButtons (buttons_state (press_reset 9000)
        (run [press_reset 1000, press_reset 3000, press_reset 6001] after_up)))
   \<and> checkButtons (buttons_state (press_reset 9000)
        (run [press_reset 1000, press_reset 3000, press_reset 6001] after_up))
       = buttons_state (press_reset 9000)
        (run [press_reset 1000, press_reset 3000, press_reset 6001] after_up)
   \<and> \<not> buttonResetNowPressed (buttons_state (quiet 9500)
        (run [press_reset 1000, press_reset 3000, press_reset 6001] after_up))
   \<and> \<not> buttonResetBlocked (checkButtons (buttons_state (quiet 9500)
        (run [press_reset 1000, press_reset 3000, press_reset 6001] after_up)))"
proof -
  let ?hold = "[press_reset 3000, press_reset 6001, press_reset 9000, press_reset 20000]"
  let ?short = "[press_reset 3000, press_reset 6000]"
  let ?fire = "buttons_state (press_reset 6001) (run [press_reset 1000, press_reset 3000] after_up)"
  let ?locked = "buttons_state (press_reset 9000)
        (run [press_reset 1000, press_reset 3000, press_reset 6001] after_up)"
  let ?released = "buttons_state (quiet 9500)
        (run [press_reset 1000, press_reset 3000, press_reset 6001] after_up)"
  have h: "held (press_reset 1000 # ?hold)" "steady (previousMillis after_up) (press_reset 1000 # ?hold)"
    "held (press_reset 1000 # ?short)" "steady (previousMillis after_up) (press_reset 1000 # ?short)"
    by (simp_all add: press_reset_def tick_def after_up_state)
  have l: "later (unat (millis (press_reset 1000)) + 5000) ?hold"
    "\<not> later (unat (millis (press_reset 1000)) + 5000) ?short"
    by (simp_all add: press_reset_def tick_def)
  have f: "longPressFires ?fire"
    by (simp add: longPressFires_def buttons_state_def alert_phase_def press_reset_def
        after_up_def start_defs task_defs const_defs Let_def)
  have g: "buttonResetNowPressed ?locked" "buttonResetBlocked ?locked"
    "buttonResetWasPressed ?locked" "\<not> buttonUpNowPressed ?locked"
    "\<not> buttonDownNowPressed ?locked" "\<not> buttonResetNowPressed ?released"
    by (simp_all add: buttons_state_def alert_phase_def press_reset_def quiet_def
        after_up_def start_defs task_defs const_defs Let_def)
  have a: "count_resets (press_reset 1000 # ?hold) after_up = 1
      \<and> buttonResetBlocked (run (press_reset 1000 # ?hold) after_up)
      \<and> maxVisitorCount (run (press_reset 1000 # ?hold) after_up) = 20"
  proof -
    have "count_resets (press_reset 1000 # ?hold) after_up =
          (if later (unat (millis (press_reset 1000)) + 5000) ?hold then 1 else 0)
      \<and> buttonResetBlocked (run (press_reset 1000 # ?hold) after_up) =
          later (unat (millis (press_reset 1000)) + 5000) ?hold
      \<and> maxVisitorCount (run (press_reset 1000 # ?hold) after_up) =
          (if later (unat (millis (press_reset 1000)) + 5000) ?hold then 20
           else maxVisitorCount after_up)"
      using C6_long_press [of after_up "press_reset 1000" ?hold ?fire] after_up_state(1,2) h(1,2)
      by blast
    then show ?thesis using l(1) by (simp only: if_True simp_thms)
  qed
  have b: "count_resets (press_reset 1000 # ?short) after_up = 0
      \<and> maxVisitorCount (run (press_reset 1000 # ?short) after_up) = 21"
  proof -
    have "count_resets (press_reset 1000 # ?short) after_up =
          (if later (unat (millis (press_reset 1000)) + 5000) ?short then 1 else 0)
      \<and> maxVisitorCount (run (press_reset 1000 # ?short) after_up) =
          (if later (unat (millis (press_reset 1000)) + 5000) ?short then 20
           else maxVisitorCount after_up)"
      using C6_long_press [of after_up "press_reset 1000" ?short ?locked] after_up_state(1,2) h(3,4)
      by blast
    then show ?thesis using l(2) after_up_state(4) by (simp only: if_False simp_thms)
  qed
  have c: "maxVisitorCount (checkButtons ?fire) = 20"
    using C6_long_press [of after_up "press_reset 1000" ?hold ?fire] f by blast
  have nf: "\<not> longPressFires ?locked"
    using C6_long_press [of after_up "press_reset 1000" ?hold ?locked] g(1,2) by blast
  have d: "buttonResetBlocked (checkButtons ?locked)"
    using C6_long_press [of after_up "press_reset 1000" ?hold ?locked] g(1,2) by blast
  have "checkButtons ?locked =
      (if buttonResetWasPressed ?locked then ?locked
       else ?locked\<lparr>buttonResetTimestamp := currentMillis ?locked\<rparr>)"
    using C6_long_press [of after_up "press_reset 1000" ?hold ?locked] nf g(1,4,5) by blast
  then have e: "checkButtons ?locked = ?locked" using g(3) by (simp only: if_True)
  have r: "\<not> buttonResetBlocked (checkButtons ?released)"
    using C6_long_press [of after_up "press_reset 1000" ?hold ?released] g(6) by blast
  show ?thesis
    using after_up_state(1,2,4) a b f c g(1) d e g(6) r by blast
qed

text \<open>
  C6 as stated fails for a hold of exactly 5000 ms: reset is pressed at the readings
  1000, 3000 and 6000 and released at 6001. The test is \<open>>\<close>, no iteration of the hold
  reads more than 5000 ms after the first, \<open>handleReset\<close> is never called, and the
  maximum is still 21. It also fails across a wrap of the clock: reset is pressed from
  reading 4294965000 to reading 4000, which is 6296 ms later, and released at 4001;
  \<open>updateTimers\<close> has set \<open>buttonResetTimestamp\<close> to 0 and \<open>handleReset\<close> is never called.
\<close>

theorem C6_counterexample:
  "maxVisitorCount after_up = 21
   \<and> buttonResetWasPressed (run [press_reset 1000] after_up)
   \<and> buttonResetTimestamp (run [press_reset 1000] after_up) = 1000
   \<and> buttonResetWasPressed (run [press_reset 1000, press_reset 3000] after_up)
   \<and> buttonResetWasPressed (run [press_reset 1000, press_reset 3000, press_reset 6000] after_up)
   \<and> millis (press_reset 6000) - 1000 = 5000
   \<and> count_resets [press_reset 1000, press_reset 3000, press_reset 6000, quiet 6001] after_up = 0
   \<and> maxVisitorCount
        (run [press_reset 1000, press_reset 3000, press_reset 6000, quiet 6001] after_up) = 21
   \<and> buttonResetTimestamp (run [press_reset 4294965000] after_up) = 4294965000
   \<and> millis (press_reset 4000) - 4294965000 = 6296
   \<and> count_resets
        [press_reset 4294965000, press_reset 4294967000, press_reset 4000, quiet 4001]
        after_up = 0
   \<and> maxVisitorCount
        (run [press_reset 4294965000, press_reset 4294967000, press_reset 4000, quiet 4001]
           after_up) = 21"
  by (simp add: longPressFires_def buttons_state_def alert_phase_def press_reset_def quiet_def
      after_up_def start_defs task_defs const_defs Let_def)

section \<open>Invariants of the loop\<close>

lemma alert_phase_buzzerTimestamp:
  "buzzerTimestamp s \<le> previousMillis s \<Longrightarrow> buzzerTimestamp (alert_phase i s) \<le> millis i"
  by (auto simp: alert_phase_def checkBuzzer_def updateTimers_def readInputs_def Let_def not_less)

lemma buzz_buzzerTimestamp:
  "buzzerTimestamp (buzz s) = buzzerTimestamp s \<or> buzzerTimestamp (buzz s) = currentMillis s"
  by (simp add: buzz_def)

lemma checkSensorIn_buzzerTimestamp:
  "buzzerTimestamp (checkSensorIn s) = buzzerTimestamp s
   \<or> buzzerTimestamp (checkSensorIn s) = currentMillis s"
  by (simp add: checkSensorIn_def handleVisitorEntered_def buzz_def Let_def)

lemma checkSensorOut_buzzerTimestamp:
  "buzzerTimestamp (checkSensorOut s) = buzzerTimestamp s
   \<or> buzzerTimestamp (checkSensorOut s) = currentMillis s"
  by (simp add: checkSensorOut_def handleVisitorLeft_def buzz_def Let_def)

lemma checkButtons_buzzerTimestamp:
  "buzzerTimestamp (checkButtons s) = buzzerTimestamp s
   \<or> buzzerTimestamp (checkButtons s) = currentMillis s"
  by (simp add: checkButtons_def handleReset_def handleButtonUp_def handleButtonDown_def
      buzz_def Let_def)

lemma updateDisplay_buzzerTimestamp:
  "buzzerTimestamp (updateDisplay s) = buzzerTimestamp s
   \<or> buzzerTimestamp (updateDisplay s) = currentMillis s"
  by (simp add: updateDisplay_def updateLights_def initializeDisplay_def setDisplayText_def
      buzz_def Let_def)

lemma after_alert_buzzerTimestamp:
  "buzzerTimestamp (after_alert s) = buzzerTimestamp s
   \<or> buzzerTimestamp (after_alert s) = currentMillis s"
  using checkSensorIn_buzzerTimestamp [of s]
    checkSensorOut_buzzerTimestamp [of "checkSensorIn s"]
    checkButtons_buzzerTimestamp [of "checkSensorOut (checkSensorIn s)"]
    updateDisplay_buzzerTimestamp [of "checkButtons (checkSensorOut (checkSensorIn s))"]
  by (auto simp: after_alert_def updateState_def)

lemma loop_buzzerTimestamp:
  assumes "buzzerTimestamp s \<le> previousMillis s"
  shows "buzzerTimestamp (loop i s) \<le> previousMillis (loop i s)"
  using after_alert_buzzerTimestamp [of "alert_phase i s"] alert_phase_buzzerTimestamp [OF assms, of i]
  by (auto simp: loop_phases)

lemma loop_lockout:
  "buttonResetWasPressed (loop i s) \<or> \<not> buttonResetBlocked (loop i s)"
  by (simp add: loop_reset_fields checkButtons_def handleReset_def handleButtonUp_def
      handleButtonDown_def buzz_def buttons_state_fields Let_def)

lemma loop_consistent: "consistent s \<Longrightarrow> consistent (loop i s)"
  using loop_lockout [of i s] loop_buzzerTimestamp [of s i] loop_sensorIn_inv [of s i]
  by (simp add: consistent_def)

lemma run_consistent: "consistent s \<Longrightarrow> consistent (run js s)"
  by (induction js arbitrary: s) (simp_all add: loop_consistent)

lemma boot_consistent: "consistent (run js boot)"
  by (rule run_consistent)
    (simp add: consistent_def start_defs handleReset_def initializeDisplay_def buzz_def)

section \<open>Refreshing the display\<close>

lemma updateLights_lcd [simp]:
  "lcd (updateLights s) = lcd s" "displayUpdated (updateLights s) = displayUpdated s"
  "displayTimestamp (updateLights s) = displayTimestamp s"
  "currentMillis (updateLights s) = currentMillis s"
  "visitorCount (updateLights s) = visitorCount s"
  "maxVisitorCount (updateLights s) = maxVisitorCount s"
  by (simp_all add: updateLights_def buzz_def Let_def)

lemma updateDisplay_lcd:
  "lcd (updateDisplay s) =
     lcd s
     @ (if 60000 < currentMillis s - displayTimestamp s then [LcdBegin 16 2] else [])
     @ (if 60000 < currentMillis s - displayTimestamp s \<or> \<not> displayUpdated s
        then [LcdHome,
              LcdPrint (''Current : '' @ String_of (unat (visitorCount s)) @ ''      ''),
              LcdSetCursor 0 1,
              LcdPrint (''Maximum : '' @ String_of (unat (maxVisitorCount s)) @ ''      '')]
        else [])"
  "displayTimestamp (updateDisplay s) =
     (if 60000 < currentMillis s - displayTimestamp s \<or> \<not> displayUpdated s
      then currentMillis s else displayTimestamp s)"
  by (simp_all add: updateDisplay_def initializeDisplay_def setDisplayText_def Let_def)

text \<open>
  C9. The display is not reinitialised every 60000 ms. \<open>updateDisplay\<close> calls
  \<open>initializeDisplay\<close> when more than 60000 ms have passed since \<open>displayTimestamp\<close>, and
  every rendering sets \<open>displayTimestamp\<close> to the current time. Left alone after the
  first rendering at reading 10, the display is reinitialised at reading 60011 (not yet
  at 60010). With a visitor entering every 30 seconds, six renderings take place in 150
  seconds and the only \<^verbatim>\<open>lcd.begin\<close> call is still the one made at start-up.
\<close>

theorem C9_reinit:
  "reinits boot = 1
   \<and> displayTimestamp (run [quiet 10] boot) = 10
   \<and> reinits (run [quiet 10, quiet 60010] boot) = 1
   \<and> reinits (run [quiet 10, quiet 60010, quiet 60011] boot) = 2
   \<and> reinits (run busy boot) = 1
   \<and> renders (run busy boot) = 6
   \<and> displayTimestamp (run busy boot) = 150000
   \<and> currentMillis (run busy boot) = 150010"
  by (simp add: reinits_def renders_def busy_def sense_in_def quiet_def start_defs task_defs
      const_defs Let_def)

section \<open>The up and down buttons\<close>

lemma handleButtonUp_fields [simp]:
  "buttonUpTimestamp (handleButtonUp s) = currentMillis s"
  "buttonDownTimestamp (handleButtonUp s) = buttonDownTimestamp s"
  "visitorCount (handleButtonUp s) =
     (if buttonResetNowPressed s then visitorCount s + 1 else visitorCount s)"
  "maxVisitorCount (handleButtonUp s) =
     (if buttonResetNowPressed s then maxVisitorCount s else maxVisitorCount s + 1)"
  by (simp_all add: handleButtonUp_def Let_def)

lemma handleButtonDown_fields [simp]:
  "buttonDownTimestamp (handleButtonDown s) = currentMillis s"
  "buttonUpTimestamp (handleButtonDown s) = buttonUpTimestamp s"
  "visitorCount (handleButtonDown s) =
     (if buttonResetNowPressed s \<and> 0 < visitorCount s then visitorCount s - 1
      else visitorCount s)"
  "maxVisitorCount (handleButtonDown s) =
     (if \<not> buttonResetNowPressed s \<and> 0 < maxVisitorCount s then maxVisitorCount s - 1
      else maxVisitorCount s)"
  by (simp_all add: handleButtonDown_def Let_def)

lemma resetEdge_fields [simp]:
  "buttonUpTimestamp (resetEdge s) = buttonUpTimestamp s"
  "buttonDownTimestamp (resetEdge s) = buttonDownTimestamp s"
  "visitorCount (resetEdge s) = visitorCount s"
  "maxVisitorCount (resetEdge s) = maxVisitorCount s"
  "currentMillis (resetEdge s) = currentMillis s"
  "buttonResetNowPressed (resetEdge s) = buttonResetNowPressed s"
  by (simp_all add: resetEdge_def)

lemma handleReset_stamps [simp]:
  "buttonUpTimestamp (handleReset s) = buttonUpTimestamp s"
  "buttonDownTimestamp (handleReset s) = buttonDownTimestamp s"
  by (simp_all add: handleReset_def buzz_def)

lemma checkButtons_stamps:
  "buttonUpTimestamp (checkButtons s) =
     (if upFires s then currentMillis s else buttonUpTimestamp s)"
  "buttonDownTimestamp (checkButtons s) =
     (if downFires s then currentMillis s else buttonDownTimestamp s)"
  by (simp_all add: checkButtons_branches upFires_def downFires_def)

lemma checkButtons_rest:
  "\<not> longPressFires s \<Longrightarrow> \<not> upFires s \<Longrightarrow> \<not> downFires s \<Longrightarrow>
   visitorCount (checkButtons s) = visitorCount s
   \<and> maxVisitorCount (checkButtons s) = maxVisitorCount s"
  by (simp add: checkButtons_branches upFires_def downFires_def)

text \<open>
  C7. In every state in which \<open>checkButtons\<close> takes the up branch (no long press fires,
  up is pressed and more than the repeat delay has passed since \<open>buttonUpTimestamp\<close>),
  \<open>buttonUpTimestamp\<close> becomes the current time and 1 is added, without any upper bound
  being tested, to \<open>visitorCount\<close> when reset is pressed and to \<open>maxVisitorCount\<close> when it
  is not; the other counter keeps its value. In every state in which it takes the down
  branch, \<open>buttonDownTimestamp\<close> becomes the current time and the target, chosen the same
  way, is decremented when it is greater than 0 and stays 0 otherwise. The up branch is
  taken exactly when no long press fires, up is pressed and more than 500 ms have
  passed since \<open>buttonUpTimestamp\<close>, and the down branch exactly when in addition to no
  long press the up test fails, down is pressed and more than 500 ms have passed since
  \<open>buttonDownTimestamp\<close>: in every other state the timestamp keeps its value, and when
  none of the three branches is taken both counters keep theirs. So the repeat timing
  is the same in both routing cases: two states in which no long press fires and which
  agree on the up sample and on the time since \<open>buttonUpTimestamp\<close> fire together or
  not at all, whatever reset is in either of them, and likewise for down.
\<close>

theorem C7_buttons:
  "(upFires s \<longrightarrow>
      buttonUpTimestamp (checkButtons s) = currentMillis s
      \<and> (buttonResetNowPressed s \<longrightarrow>
           visitorCount (checkButtons s) = visitorCount s + 1
           \<and> maxVisitorCount (checkButtons s) = maxVisitorCount s)
      \<and> (\<not> buttonResetNowPressed s \<longrightarrow>
           maxVisitorCount (checkButtons s) = maxVisitorCount s + 1
           \<and> visitorCount (checkButtons s) = visitorCount s))
   \<and> (downFires s \<longrightarrow>
      buttonDownTimestamp (checkButtons s) = currentMillis s
      \<and> (buttonResetNowPressed s \<longrightarrow>
           visitorCount (checkButtons s) =
             (if 0 < visitorCount s then visitorCount s - 1 else 0)
           \<and> maxVisitorCount (checkButtons s) = maxVisitorCount s)
      \<and> (\<not> buttonResetNowPressed s \<longrightarrow>
           maxVisitorCount (checkButtons s) =
             (if 0 < maxVisitorCount s then maxVisitorCount s - 1 else 0)
           \<and> visitorCount (checkButtons s) = visitorCount s))
   \<and> upFires s =
       (\<not> longPressFires s \<and> buttonUpNowPressed s
        \<and> 500 < currentMillis s - buttonUpTimestamp s)
   \<and> downFires s =
       (\<not> longPressFires s
        \<and> \<not> (buttonUpNowPressed s \<and> 500 < currentMillis s - buttonUpTimestamp s)
        \<and> buttonDownNowPressed s \<and> 500 < currentMillis s - buttonDownTimestamp s)
   \<and> buttonUpTimestamp (checkButtons s) =
       (if upFires s then currentMillis s else buttonUpTimestamp s)
   \<and> buttonDownTimestamp (checkButtons s) =
       (if downFires s then currentMillis s else buttonDownTimestamp s)
   \<and> (\<not> longPressFires s \<and> \<not> upFires s \<and> \<not> downFires s \<longrightarrow>
        visitorCount (checkButtons s) = visitorCount s
        \<and> maxVisitorCount (checkButtons s) = maxVisitorCount s)
   \<and> (\<not> longPressFires s \<and> \<not> longPressFires v
       \<and> buttonUpNowPressed s = buttonUpNowPressed v
       \<and> currentMillis s - buttonUpTimestamp s = currentMillis v - buttonUpTimestamp v \<longrightarrow>
        upFires s = upFires v)
   \<and> (\<not> longPressFires s \<and> \<not> longPressFires v \<and> upFires s = upFires v
       \<and> buttonDownNowPressed s = buttonDownNowPressed v
       \<and> currentMillis s - buttonDownTimestamp s = currentMillis v - buttonDownTimestamp v \<longrightarrow>
        downFires s = downFires v)"
proof -
  have a: "(upFires s \<longrightarrow>
      buttonUpTimestamp (checkButtons s) = currentMillis s
      \<and> (buttonResetNowPressed s \<longrightarrow>
           visitorCount (checkButtons s) = visitorCount s + 1
           \<and> maxVisitorCount (checkButtons s) = maxVisitorCount s)
      \<and> (\<not> buttonResetNowPressed s \<longrightarrow>
           maxVisitorCount (checkButtons s) = maxVisitorCount s + 1
           \<and> visitorCount (checkButtons s) = visitorCount s))
   \<and> (downFires s \<longrightarrow>
      buttonDownTimestamp (checkButtons s) = currentMillis s
      \<and> (buttonResetNowPressed s \<longrightarrow>
           visitorCount (checkButtons s) =
             (if 0 < visitorCount s then visitorCount s - 1 else 0)
           \<and> maxVisitorCount (checkButtons s) = maxVisitorCount s)
      \<and> (\<not> buttonResetNowPressed s \<longrightarrow>
           maxVisitorCount (checkButtons s) =
             (if 0 < maxVisitorCount s then maxVisitorCount s - 1 else 0)
           \<and> visitorCount (checkButtons s) = visitorCount s))"
    by (auto simp: upFires_def downFires_def upRepeats_def downRepeats_def longPressFires_def
        checkButtons_def handleButtonUp_def handleButtonDown_def handleReset_def buzz_def Let_def
        word_greater_zero_iff)
  have b: "upFires s =
       (\<not> longPressFires s \<and> buttonUpNowPressed s
        \<and> 500 < currentMillis s - buttonUpTimestamp s)"
    "downFires s =
       (\<not> longPressFires s
        \<and> \<not> (buttonUpNowPressed s \<and> 500 < currentMillis s - buttonUpTimestamp s)
        \<and> buttonDownNowPressed s \<and> 500 < currentMillis s - buttonDownTimestamp s)"
    by (simp_all add: upFires_def downFires_def upRepeats_def downRepeats_def
        BUTTON_REPEAT_DELAY_MS_def)
  have c: "\<not> longPressFires s \<and> \<not> upFires s \<and> \<not> downFires s \<longrightarrow>
        visitorCount (checkButtons s) = visitorCount s
        \<and> maxVisitorCount (checkButtons s) = maxVisitorCount s"
    using checkButtons_rest [of s] by blast
  have d: "\<not> longPressFires s \<and> \<not> longPressFires v
       \<and> buttonUpNowPressed s = buttonUpNowPressed v
       \<and> currentMillis s - buttonUpTimestamp s = currentMillis v - buttonUpTimestamp v \<longrightarrow>
        upFires s = upFires v"
    by (simp add: upFires_def upRepeats_def)
  have e: "\<not> longPressFires s \<and> \<not> longPressFires v \<and> upFires s = upFires v
       \<and> buttonDownNowPressed s = buttonDownNowPressed v
       \<and> currentMillis s - buttonDownTimestamp s = currentMillis v - buttonDownTimestamp v \<longrightarrow>
        downFires s = downFires v"
    by (auto simp: upFires_def downFires_def downRepeats_def)
  show ?thesis
    using a b [symmetric] checkButtons_stamps [of s] c d e by simp
qed

theorem C7_buttons_witness:
  "upFires (at_buttons LOW LOW HIGH) \<and> buttonResetNowPressed (at_buttons LOW LOW HIGH)
   \<and> visitorCount (at_buttons LOW LOW HIGH) = 0
   \<and> visitorCount (checkButtons (at_buttons LOW LOW HIGH)) = 1
   \<and> maxVisitorCount (checkButtons (at_buttons LOW LOW HIGH)) = 20
   \<and> upFires (at_buttons HIGH LOW HIGH) \<and> \<not> buttonResetNowPressed (at_buttons HIGH LOW HIGH)
   \<and> maxVisitorCount (checkButtons (at_buttons HIGH LOW HIGH)) = 21
   \<and> downFires (at_buttons LOW HIGH LOW)
   \<and> visitorCount (checkButtons (at_buttons LOW HIGH LOW)) = 0
   \<and> downFires (at_buttons HIGH HIGH LOW)
   \<and> maxVisitorCount (checkButtons (at_buttons HIGH HIGH LOW)) = 19
   \<and> buttonResetNowPressed (up_again LOW 1500) \<and> \<not> buttonResetNowPressed (up_again HIGH 1500)
   \<and> \<not> upFires (up_again LOW 1500) \<and> \<not> upFires (up_again HIGH 1500)
   \<and> buttonUpTimestamp (checkButtons (up_again LOW 1500)) = 1000
   \<and> buttonUpTimestamp (checkButtons (up_again HIGH 1500)) = 1000
   \<and> visitorCount (checkButtons (up_again LOW 1500)) = 1
   \<and> maxVisitorCount (checkButtons (up_again HIGH 1500)) = 21
   \<and> upFires (up_again LOW 1501) \<and> upFires (up_again HIGH 1501)
   \<and> buttonUpTimestamp (checkButtons (up_again LOW 1501)) = 1501
   \<and> buttonUpTimestamp (checkButtons (up_again HIGH 1501)) = 1501
   \<and> visitorCount (checkButtons (up_again LOW 1501)) = 2
   \<and> maxVisitorCount (checkButtons (up_again HIGH 1501)) = 22"
proof -
  have u: "buttonResetNowPressed (up_again LOW 1500)" "\<not> buttonResetNowPressed (up_again HIGH 1500)"
    "buttonResetNowPressed (up_again LOW 1501)" "\<not> buttonResetNowPressed (up_again HIGH 1501)"
    "\<not> longPressFires (up_again LOW 1500)" "\<not> longPressFires (up_again HIGH 1500)"
    "\<not> longPressFires (up_again LOW 1501)" "\<not> longPressFires (up_again HIGH 1501)"
    "buttonUpNowPressed (up_again LOW 1500)" "buttonUpNowPressed (up_again HIGH 1500)"
    "buttonUpNowPressed (up_again LOW 1501)" "buttonUpNowPressed (up_again HIGH 1501)"
    "\<not> buttonDownNowPressed (up_again LOW 1500)" "\<not> buttonDownNowPressed (up_again HIGH 1500)"
    "currentMillis (up_again LOW 1500) = 1500" "currentMillis (up_again HIGH 1500) = 1500"
    "currentMillis (up_again LOW 1501) = 1501" "currentMillis (up_again HIGH 1501) = 1501"
    "buttonUpTimestamp (up_again LOW 1500) = 1000" "buttonUpTimestamp (up_again HIGH 1500) = 1000"
    "buttonUpTimestamp (up_again LOW 1501) = 1000" "buttonUpTimestamp (up_again HIGH 1501) = 1000"
    "visitorCount (up_again LOW 1500) = 1" "maxVisitorCount (up_again HIGH 1500) = 21"
    "visitorCount (up_again LOW 1501) = 1" "maxVisitorCount (up_again HIGH 1501) = 21"
    by (simp_all add: up_again_def buttons_state_def alert_phase_def longPressFires_def
        start_defs task_defs const_defs Let_def)
  have w: "upFires (at_buttons LOW LOW HIGH)" "buttonResetNowPressed (at_buttons LOW LOW HIGH)"
    "visitorCount (at_buttons LOW LOW HIGH) = 0" "maxVisitorCount (at_buttons LOW LOW HIGH) = 20"
    "upFires (at_buttons HIGH LOW HIGH)" "\<not> buttonResetNowPressed (at_buttons HIGH LOW HIGH)"
    "maxVisitorCount (at_buttons HIGH LOW HIGH) = 20"
    "downFires (at_buttons LOW HIGH LOW)" "buttonResetNowPressed (at_buttons LOW HIGH LOW)"
    "visitorCount (at_buttons LOW HIGH LOW) = 0"
    "downFires (at_buttons HIGH HIGH LOW)" "\<not> buttonResetNowPressed (at_buttons HIGH HIGH LOW)"
    "maxVisitorCount (at_buttons HIGH HIGH LOW) = 20"
    by (simp_all add: at_buttons_def upFires_def downFires_def upRepeats_def downRepeats_def
      longPressFires_def start_defs readInputs_def updateTimers_def checkBuzzer_def
      checkSensorIn_def checkSensorOut_def handleReset_def initializeDisplay_def buzz_def
      const_defs Let_def)
  show ?thesis
    using C7_buttons [of "at_buttons LOW LOW HIGH" "at_buttons HIGH LOW HIGH"]
      C7_buttons [of "at_buttons HIGH LOW HIGH" "at_buttons LOW LOW HIGH"]
      C7_buttons [of "at_buttons LOW HIGH LOW" "at_buttons HIGH HIGH LOW"]
      C7_buttons [of "at_buttons HIGH HIGH LOW" "at_buttons LOW HIGH LOW"]
      C7_buttons [of "up_again LOW 1500" "up_again HIGH 1500"]
      C7_buttons [of "up_again HIGH 1500" "up_again LOW 1500"]
      C7_buttons [of "up_again LOW 1501" "up_again HIGH 1501"]
      C7_buttons [of "up_again HIGH 1501" "up_again LOW 1501"]
      u w
    by simp
qed

end
